theory Spec2Isabelle
  imports Main "HOL-Library.AList"
begin

section \<open>forkd: a pre-forking process manager (src/forkd/core.py)\<close>

text \<open>
  The module is Python 2. A \<open>Forkd\<close> object (the master) keeps a dictionary of worker
  processes, relays signals through a pipe to its control loop and forks workers that
  run a caller-supplied generator. The embedding passes the object and the operating
  system explicitly: every \<open>os.*\<close>, \<open>signal.*\<close> and logging call of the source appends
  one event to a trace, so that the order and the number of effects can be stated.
\<close>

subsection \<open>Module constants\<close>

text \<open>
  \<open>SIGNAL_IDS\<close> is a dict from signal name to a one-character identifier; it is kept as
  an association list in the order of the source's literal (a dict's own iteration
  order is an implementation detail, no theorem depends on it).
\<close>

definition SIGNAL_IDS :: "(string \<times> string) list" where
  "SIGNAL_IDS =
     [(''SIGCHLD'', ''C''), (''SIGHUP'', ''H''), (''SIGINT'', ''I''), (''SIGQUIT'', ''Q''),
      (''SIGUSR1'', ''1''), (''SIGUSR2'', ''2''), (''SIGTERM'', ''T'')]"

definition SIGNAL_IDS_REV :: "(string \<times> string) list" where
  "SIGNAL_IDS_REV = map (\<lambda>(k, v). (v, k)) SIGNAL_IDS"

definition WORKER_QUIT :: string where
  "WORKER_QUIT = ''Q''"

text \<open>The values of the \<open>errno\<close> module on Linux.\<close>

definition EINTR :: int where "EINTR = 4"
definition ECHILD :: int where "ECHILD = 10"
definition EAGAIN :: int where "EAGAIN = 11"

subsection \<open>Data\<close>

text \<open>Exceptions the master can meet; \<open>IOError\<close> and \<open>OSError\<close> carry their errno.\<close>

datatype exn = IOError int | OSError int | KeyError | ValueError | TypeError | AttributeError

text \<open>\<open>self._status\<close>: \<open>None\<close> after construction, then one of four strings.\<close>

datatype sup_status = Unset | Starting | Running | Shutdown | Ended

text \<open>The \<open>'status'\<close> entry of a worker's dict.\<close>

datatype wstatus = WRunning | WShutdown

text \<open>
  A registry value \<open>{'pipe': (r, w), 'status': ...}\<close>. A pipe is the pair that
  \<open>os.pipe()\<close> returned: read end first, write end second.
\<close>

record worker =
  pipe :: "nat \<times> nat"
  wstatus :: wstatus

datatype level = Debug | Info | Error

datatype arg = AInt int | AStr string | AExn exn

text \<open>
  The effects of the source, one event per call. \<open>EFork pid st\<close> is \<open>os.fork()\<close>
  returning \<open>pid\<close> in the parent; the child starts as a copy of the parent's memory, and
  \<open>st\<close> is the \<open>_status\<close> field of that copy. \<open>ELog\<close> carries the format string and its
  arguments, \<open>ELogExc\<close> is \<open>self._log.exception\<close> with the exception being handled.
\<close>

datatype event =
    EPipe nat nat
  | ENonblock nat
  | ESignal string
  | EFork int sup_status
  | EWrite nat string
  | EClose nat
  | EWaitpid int nat
  | EFdopen nat
  | EReadline nat
  | ELog level string "arg list"
  | ELogExc string exn

text \<open>
  The operating system as the master sees it. File descriptors are handed out by a
  counter, so a descriptor names one channel for ever (the kernel reuses numbers after
  \<open>close\<close>; the model identifies a channel, not a number). \<open>os.fork()\<close> returns
  \<open>last_pid + 1\<close>, which is positive as the parent's return value always is.
  \<open>children\<close> are the children not yet waited for, \<open>zombies\<close> those of them that
  have terminated, with their wait status. \<open>sigtable\<close> holds the installed handlers:
  the signal name and the \<open>signal_id\<close> the handler's closure captured. \<open>wait_fault\<close>
  is the errno with which the system makes \<open>waitpid\<close> fail, if it does (an interrupted
  call, say). Of the system calls that the master makes, \<open>waitpid\<close> is the one whose
  failure is part of the model; \<open>pipe\<close>, \<open>fork\<close>, \<open>write\<close> and \<open>close\<close> succeed.
\<close>

record world =
  self_pid :: int
  last_pid :: nat
  next_fd :: nat
  children :: "int list"
  zombies :: "(int \<times> nat) list"
  sigtable :: "(string \<times> string) list"
  trace :: "event list"
  wait_fault :: "int option"

text \<open>
  The fields of a \<open>Forkd\<close> object that the master uses, and the world it runs in.
  \<open>worker_func\<close> is only used in the child and is a parameter of the worker runtime
  below; \<open>_log\<close> is the trace. \<open>workers\<close> is the dict \<open>self._workers\<close> as an association
  list: its order stands for the dict's iteration order, and a dict has no duplicate
  keys.
\<close>

record forkd =
  num_workers :: int
  status :: sup_status
  signal_pipe :: "(nat \<times> nat) option"
  workers :: "(int \<times> worker) list"
  world :: world

type_synonym outcome = "exn \<times> forkd + forkd"

text \<open>\<open>Forkd.__init__(worker_func, num_workers)\<close>.\<close>

definition Forkd :: "int \<Rightarrow> world \<Rightarrow> forkd" where
  "Forkd n w = \<lparr>num_workers = n, status = Unset, signal_pipe = None, workers = [], world = w\<rparr>"

subsection \<open>Operating system and logging primitives\<close>

definition emit :: "event \<Rightarrow> forkd \<Rightarrow> forkd" where
  "emit e s = s\<lparr>world := (world s)\<lparr>trace := trace (world s) @ [e]\<rparr>\<rparr>"

definition log :: "level \<Rightarrow> string \<Rightarrow> arg list \<Rightarrow> forkd \<Rightarrow> forkd" where
  "log l m as s = emit (ELog l m as) s"

definition os_getpid :: "forkd \<Rightarrow> int" where
  "os_getpid s = self_pid (world s)"

definition os_pipe :: "forkd \<Rightarrow> (nat \<times> nat) \<times> forkd" where
  "os_pipe s =
     (let r = next_fd (world s)
      in ((r, r + 1), emit (EPipe r (r + 1)) (s\<lparr>world := (world s)\<lparr>next_fd := r + 2\<rparr>\<rparr>)))"

definition fcntl_nonblock :: "nat \<Rightarrow> forkd \<Rightarrow> forkd" where
  "fcntl_nonblock fd s = emit (ENonblock fd) s"

definition os_fork :: "forkd \<Rightarrow> int \<times> forkd" where
  "os_fork s =
     (let n = Suc (last_pid (world s)); pid = int n
      in (pid, emit (EFork pid (status s))
                 (s\<lparr>world := (world s)\<lparr>last_pid := n, children := children (world s) @ [pid]\<rparr>\<rparr>)))"

definition os_write :: "nat \<Rightarrow> string \<Rightarrow> forkd \<Rightarrow> forkd" where
  "os_write fd str s = emit (EWrite fd str) s"

definition os_close :: "nat \<Rightarrow> forkd \<Rightarrow> forkd" where
  "os_close fd s = emit (EClose fd) s"

text \<open>
  \<open>os.waitpid(-1, os.WNOHANG)\<close>: an \<open>OSError\<close> with the system's errno when the system
  makes the call fail, \<open>ECHILD\<close> without any child, \<open>(0, 0)\<close> when no child has
  terminated, else the first terminated child, which is then waited for.
\<close>

definition os_waitpid :: "forkd \<Rightarrow> exn \<times> forkd + (int \<times> nat) \<times> forkd" where
  "os_waitpid s =
     (case wait_fault (world s) of
        Some errno \<Rightarrow> Inl (OSError errno, s)
      | None \<Rightarrow>
          if children (world s) = [] then Inl (OSError ECHILD, s)
          else case zombies (world s) of
                 [] \<Rightarrow> Inr ((0, 0), emit (EWaitpid 0 0) s)
               | (pid, st) # zs \<Rightarrow>
                   Inr ((pid, st),
                        emit (EWaitpid pid st)
                          (s\<lparr>world := (world s)\<lparr>zombies := zs,
                                                  children := removeAll pid (children (world s))\<rparr>\<rparr>)))"

subsection \<open>Shutting workers down\<close>

text \<open>
  \<open>_shutdown_worker\<close>: \<open>self._workers[pid]\<close> raises \<open>KeyError\<close> for an unknown pid; the
  dict of a running worker is changed in place and the quit byte is written to the
  write end of its pipe.
\<close>

definition shutdown_worker :: "int \<Rightarrow> forkd \<Rightarrow> outcome" where
  "shutdown_worker pid s =
     (case map_of (workers s) pid of
        None \<Rightarrow> Inl (KeyError, s)
      | Some worker \<Rightarrow>
          if wstatus worker \<noteq> WRunning then Inr s
          else Inr (os_write (snd (pipe worker)) WORKER_QUIT
                      (s\<lparr>workers := AList.update pid (worker\<lparr>wstatus := WShutdown\<rparr>) (workers s)\<rparr>)))"

text \<open>\<open>_shutdown_workers\<close>: \<open>for pid in self._workers: self._shutdown_worker(pid)\<close>.\<close>

fun shutdown_each :: "int list \<Rightarrow> forkd \<Rightarrow> outcome" where
  "shutdown_each [] s = Inr s"
| "shutdown_each (pid # pids) s =
     (case shutdown_worker pid s of
        Inl e \<Rightarrow> Inl e
      | Inr s' \<Rightarrow> shutdown_each pids s')"

definition shutdown_workers :: "forkd \<Rightarrow> outcome" where
  "shutdown_workers s = shutdown_each (map fst (workers s)) s"

definition shutdown :: "forkd \<Rightarrow> outcome" where
  "shutdown s =
     (if status s = Shutdown then Inr s
      else shutdown_workers
             ((log Info ''[%s] shutting down'' [AInt (os_getpid s)] s)
                \<lparr>num_workers := 0, status := Shutdown\<rparr>))"

subsection \<open>Spawning workers\<close>

text \<open>
  \<open>_spawn_worker\<close> in the parent: the pipe, the non-blocking flag on its read end, the
  fork, and the return of \<open>(pid, worker_pipe)\<close>. What the child does after the fork is
  \<open>worker_runtime\<close> below.
\<close>

definition spawn_worker :: "forkd \<Rightarrow> (int \<times> (nat \<times> nat)) \<times> forkd" where
  "spawn_worker s =
     (case os_pipe s of
        (worker_pipe, s1) \<Rightarrow>
          (case os_fork (fcntl_nonblock (fst worker_pipe) s1) of
             (pid, s2) \<Rightarrow> ((pid, worker_pipe), s2)))"

text \<open>
  \<open>_spawn_workers\<close>: the \<open>range\<close> is computed once, before the first fork. The body
  stores the new dict under the pid (replacing an entry with the same key) and logs.
\<close>

fun spawn_n :: "nat \<Rightarrow> forkd \<Rightarrow> forkd" where
  "spawn_n 0 s = s"
| "spawn_n (Suc k) s =
     (case spawn_worker s of
        ((pid, worker_pipe), s1) \<Rightarrow>
          spawn_n k
            (log Info ''[%s] started worker %s'' [AInt (os_getpid s1), AInt pid]
               (s1\<lparr>workers :=
                     AList.update pid \<lparr>pipe = worker_pipe, wstatus = WRunning\<rparr> (workers s1)\<rparr>)))"

definition spawn_workers :: "forkd \<Rightarrow> forkd" where
  "spawn_workers s = spawn_n (nat (max (num_workers s - int (length (workers s))) 0)) s"

text \<open>
  \<open>_respawn_workers\<close>: the loop runs over the items of the dict as they are when it
  starts; \<open>_shutdown_worker(pid)\<close> changes the entry of \<open>pid\<close> only, so the status read
  from an item is its current one.
\<close>

fun respawn_each :: "(int \<times> worker) list \<Rightarrow> forkd \<Rightarrow> outcome" where
  "respawn_each [] s = Inr s"
| "respawn_each ((pid, worker) # items) s =
     (if wstatus worker = WRunning
      then (case shutdown_worker pid s of
              Inl e \<Rightarrow> Inl e
            | Inr s' \<Rightarrow> respawn_each items s')
      else respawn_each items s)"

definition respawn_workers :: "forkd \<Rightarrow> outcome" where
  "respawn_workers s =
     respawn_each (workers s) (log Info ''[%s] respawning workers'' [AInt (os_getpid s)] s)"

subsection \<open>Scaling\<close>

definition add_worker :: "forkd \<Rightarrow> forkd" where
  "add_worker s =
     (let s1 = s\<lparr>num_workers := num_workers s + 1\<rparr>
      in spawn_workers
           (log Info ''[%s] adding worker, num_workers=%d''
              [AInt (os_getpid s1), AInt (num_workers s1)] s1))"

text \<open>\<open>_remove_worker\<close>: the loop stops at the first running item (\<open>break\<close>).\<close>

fun remove_first :: "(int \<times> worker) list \<Rightarrow> forkd \<Rightarrow> outcome" where
  "remove_first [] s = Inr s"
| "remove_first ((pid, worker) # items) s =
     (if wstatus worker = WRunning then shutdown_worker pid s
      else remove_first items s)"

definition remove_worker :: "forkd \<Rightarrow> outcome" where
  "remove_worker s =
     (if num_workers s \<le> 1 then Inr s
      else (let s1 = s\<lparr>num_workers := num_workers s - 1\<rparr>
            in remove_first (workers s1)
                 (log Info ''[%s] removing worker, num_workers=%d''
                    [AInt (os_getpid s1), AInt (num_workers s1)] s1)))"

subsection \<open>Reaping\<close>

text \<open>
  The \<open>while self._workers\<close> loop of \<open>_SIGCHLD\<close>. \<open>self._workers.pop(pid)\<close> raises
  \<open>KeyError\<close> for a pid that is not a key. Every round that goes on has taken one
  terminated child from the system, which bounds the loop.
\<close>

function reap :: "forkd \<Rightarrow> outcome" where
  "reap s =
     (if workers s = [] then Inr s
      else case os_waitpid s of
             Inl e \<Rightarrow> Inl e
           | Inr ((pid, st), s1) \<Rightarrow>
               if pid = 0 then Inr s1
               else (let s2 = log Info ''[%s] worker %s ended with status: %s''
                                [AInt (os_getpid s1), AInt pid, AInt (int (st div 256))] s1
                     in case map_of (workers s2) pid of
                          None \<Rightarrow> Inl (KeyError, s2)
                        | Some worker \<Rightarrow>
                            reap (os_close (snd (pipe worker))
                                   (os_close (fst (pipe worker))
                                      (s2\<lparr>workers := AList.delete pid (workers s2)\<rparr>)))))"
  by pat_completeness auto
termination
  by (relation "measure (\<lambda>s. length (zombies (world s)))")
     (auto simp: os_waitpid_def os_close_def log_def emit_def
           split: if_splits list.splits option.splits)

declare reap.simps [simp del]

subsection \<open>The handlers of the control loop\<close>

definition SIGCHLD :: "int \<Rightarrow> forkd \<Rightarrow> outcome" where
  "SIGCHLD from_pid s =
     (case reap (log Debug ''[%s] SIGCHLD'' [AInt (os_getpid s)] s) of
        Inl e \<Rightarrow> Inl e
      | Inr s1 \<Rightarrow> Inr (spawn_workers s1))"

definition SIGHUP :: "int \<Rightarrow> forkd \<Rightarrow> outcome" where
  "SIGHUP from_pid s =
     (let s1 = log Debug ''[%s] SIGHUP from %d'' [AInt (os_getpid s), AInt from_pid] s
      in if from_pid = os_getpid s1 then respawn_workers s1
         else shutdown_worker from_pid s1)"

definition SIGINT :: "int \<Rightarrow> forkd \<Rightarrow> outcome" where
  "SIGINT from_pid s =
     (let s1 = log Debug ''[%s] SIGINT from %d'' [AInt (os_getpid s), AInt from_pid] s
      in if from_pid = os_getpid s1 then shutdown s1
         else shutdown_worker from_pid s1)"

definition SIGQUIT :: "int \<Rightarrow> forkd \<Rightarrow> outcome" where
  "SIGQUIT from_pid s =
     (let s1 = log Debug ''[%s] SIGQUIT from %d'' [AInt (os_getpid s), AInt from_pid] s
      in if from_pid = os_getpid s1 then shutdown s1
         else shutdown_worker from_pid s1)"

definition SIGTERM :: "int \<Rightarrow> forkd \<Rightarrow> outcome" where
  "SIGTERM from_pid s =
     (let s1 = log Debug ''[%s] SIGTERM from %d'' [AInt (os_getpid s), AInt from_pid] s
      in if from_pid = os_getpid s1 then shutdown s1
         else shutdown_worker from_pid s1)"

definition SIGUSR1 :: "int \<Rightarrow> forkd \<Rightarrow> outcome" where
  "SIGUSR1 from_pid s =
     (let s1 = log Debug ''[%s] SIGUSR1 from %d'' [AInt (os_getpid s), AInt from_pid] s
      in if from_pid = os_getpid s1 then Inr (add_worker s1) else Inr s1)"

definition SIGUSR2 :: "int \<Rightarrow> forkd \<Rightarrow> outcome" where
  "SIGUSR2 from_pid s =
     (let s1 = log Debug ''[%s] SIGUSR2 from %d'' [AInt (os_getpid s), AInt from_pid] s
      in if from_pid = os_getpid s1 then remove_worker s1 else Inr s1)"

text \<open>\<open>getattr(self, name)\<close> for the names the loop builds: the seven handler methods.\<close>

definition getattr :: "string \<Rightarrow> (int \<Rightarrow> forkd \<Rightarrow> outcome) option" where
  "getattr name =
     map_of [(''_SIGCHLD'', SIGCHLD), (''_SIGHUP'', SIGHUP), (''_SIGINT'', SIGINT),
             (''_SIGQUIT'', SIGQUIT), (''_SIGUSR1'', SIGUSR1), (''_SIGUSR2'', SIGUSR2),
             (''_SIGTERM'', SIGTERM)] name"

subsection \<open>The signal relay\<close>

text \<open>\<open>str\<close> of an integer, as \<open>'%s' % os.getpid()\<close> renders it.\<close>

definition digit_char :: "nat \<Rightarrow> char" where
  "digit_char d = char_of (48 + d)"

fun str_nat :: "nat \<Rightarrow> string" where
  "str_nat n = (if n < 10 then [digit_char n] else str_nat (n div 10) @ [digit_char (n mod 10)])"

declare str_nat.simps [simp del]

definition str_int :: "int \<Rightarrow> string" where
  "str_int i = (if i < 0 then CHR ''-'' # str_nat (nat (- i)) else str_nat (nat i))"

definition newline :: char where
  "newline = CHR 0x0A"

text \<open>
  The closure \<open>handler(signo, frame)\<close> that \<open>_signal(signame)\<close> builds, run in the
  process whose object and world are \<open>s\<close>: the master, or a worker that inherited the
  handlers. \<open>self._signal_pipe[1]\<close> is a \<open>TypeError\<close> while the pipe is \<open>None\<close>.
\<close>

definition handler :: "string \<Rightarrow> string \<Rightarrow> forkd \<Rightarrow> outcome" where
  "handler signal_id signame s =
     (let s1 = log Debug ''[%d] signal: %s'' [AInt (os_getpid s), AStr signame] s
      in case signal_pipe s1 of
           None \<Rightarrow> Inl (TypeError, s1)
         | Some p \<Rightarrow>
             Inr (os_write (snd p) (signal_id @ '' '' @ str_int (os_getpid s1) @ [newline]) s1))"

text \<open>\<open>_signal\<close>: \<open>SIGNAL_IDS[signame]\<close> may raise \<open>KeyError\<close>; then the handler is installed.\<close>

definition signal :: "string \<Rightarrow> forkd \<Rightarrow> outcome" where
  "signal signame s =
     (case map_of SIGNAL_IDS signame of
        None \<Rightarrow> Inl (KeyError, s)
      | Some signal_id \<Rightarrow>
          Inr (emit (ESignal signame)
                 (s\<lparr>world := (world s)\<lparr>sigtable :=
                       AList.update signame signal_id (sigtable (world s))\<rparr>\<rparr>)))"

fun signal_each :: "string list \<Rightarrow> forkd \<Rightarrow> outcome" where
  "signal_each [] s = Inr s"
| "signal_each (name # names) s =
     (case signal name s of
        Inl e \<Rightarrow> Inl e
      | Inr s' \<Rightarrow> signal_each names s')"

text \<open>\<open>_setup\<close>: the signal pipe, then a handler for every name in \<open>SIGNAL_IDS\<close>.\<close>

definition do_setup :: "forkd \<Rightarrow> outcome" where
  "do_setup s =
     (case os_pipe s of
        (p, s1) \<Rightarrow> signal_each (map fst SIGNAL_IDS) (s1\<lparr>signal_pipe := Some p\<rparr>))"

text \<open>The operating system delivers a signal: the installed handler runs, if any.\<close>

definition deliver :: "string \<Rightarrow> forkd \<Rightarrow> outcome" where
  "deliver signame s =
     (case map_of (sigtable (world s)) signame of
        None \<Rightarrow> Inr s
      | Some signal_id \<Rightarrow> handler signal_id signame s)"

subsection \<open>Decoding a message\<close>

text \<open>The whitespace of \<open>str.strip()\<close> and \<open>str.split()\<close> on a byte string.\<close>

definition is_space :: "char \<Rightarrow> bool" where
  "is_space c = (c \<in> set [CHR '' '', CHR 0x09, CHR 0x0A, CHR 0x0B, CHR 0x0C, CHR 0x0D])"

definition py_strip :: "string \<Rightarrow> string" where
  "py_strip str = rev (dropWhile is_space (rev (dropWhile is_space str)))"

fun py_split_aux :: "string \<Rightarrow> string \<Rightarrow> string list" where
  "py_split_aux cur [] = (if cur = [] then [] else [cur])"
| "py_split_aux cur (c # cs) =
     (if is_space c then (if cur = [] then py_split_aux [] cs else cur # py_split_aux [] cs)
      else py_split_aux (cur @ [c]) cs)"

definition py_split :: "string \<Rightarrow> string list" where
  "py_split str = py_split_aux [] str"

definition is_digit :: "char \<Rightarrow> bool" where
  "is_digit c = (48 \<le> (of_char c :: nat) \<and> (of_char c :: nat) \<le> 57)"

definition digits_val :: "string \<Rightarrow> nat" where
  "digits_val ds = foldl (\<lambda>acc c. 10 * acc + (of_char c - 48)) 0 ds"

text \<open>
  \<open>int(token)\<close> in base 10 on a token without whitespace: an optional sign and at least
  one digit, else \<open>ValueError\<close> (here \<open>None\<close>).
\<close>

definition py_int :: "string \<Rightarrow> int option" where
  "py_int t =
     (case (case t of
              [] \<Rightarrow> (False, [])
            | c # r \<Rightarrow> if c = CHR ''-'' then (True, r)
                       else if c = CHR ''+'' then (False, r) else (False, t)) of
        (neg, ds) \<Rightarrow>
          if ds \<noteq> [] \<and> list_all is_digit ds
          then Some (if neg then - int (digits_val ds) else int (digits_val ds))
          else None)"

text \<open>
  \<open>signal_id, from_pid = msg.strip().split()\<close> raises \<open>ValueError\<close> unless there are
  exactly two tokens; \<open>int(from_pid)\<close> may raise it too.
\<close>

definition parse_msg :: "string \<Rightarrow> exn + string \<times> int" where
  "parse_msg msg =
     (case py_split (py_strip msg) of
        [signal_id, from_pid] \<Rightarrow>
          (case py_int from_pid of
             None \<Rightarrow> Inl ValueError
           | Some n \<Rightarrow> Inr (signal_id, n))
      | _ \<Rightarrow> Inl ValueError)"

subsection \<open>The control loop\<close>

text \<open>
  What \<open>f.readline()\<close> gives: a line (the empty string at end of stream) or an
  \<open>IOError\<close>.
\<close>

datatype rd = Line string | IOErr int

datatype flow = Continue | Break

text \<open>
  The body of the \<open>try\<close> block, on the file object for descriptor \<open>f\<close>. An exception
  leaves the object as it is at the raise: Python undoes nothing.
\<close>

definition loop_body :: "nat \<Rightarrow> rd \<Rightarrow> forkd \<Rightarrow> exn \<times> forkd + flow \<times> forkd" where
  "loop_body f r s =
     (let s0 = emit (EReadline f) s
      in case r of
           IOErr e \<Rightarrow> Inl (IOError e, s0)
         | Line msg \<Rightarrow>
             if msg = [] then Inr (Break, s0)
             else (case parse_msg msg of
                     Inl e \<Rightarrow> Inl (e, s0)
                   | Inr (signal_id, from_pid) \<Rightarrow>
                       (case map_of SIGNAL_IDS_REV signal_id of
                          None \<Rightarrow> Inl (KeyError, s0)
                        | Some name \<Rightarrow>
                            (case getattr (''_'' @ name) of
                               None \<Rightarrow> Inl (AttributeError, s0)
                             | Some h \<Rightarrow>
                                 (case h from_pid s0 of
                                    Inl e \<Rightarrow> Inl e
                                  | Inr s1 \<Rightarrow> Inr (Continue, s1))))))"

text \<open>
  The two \<open>except\<close> clauses: \<open>None\<close> when the exception is swallowed and the loop goes
  on, else the exception that is raised again and the object after the logging.
\<close>

fun except_clauses :: "exn \<Rightarrow> forkd \<Rightarrow> (exn \<times> forkd) option" where
  "except_clauses (IOError e) s =
     (if e \<noteq> EINTR
      then Some (IOError e, log Info ''IOError %x: %s'' [AInt e, AExn (IOError e)] s)
      else None)"
| "except_clauses x s =
     Some (x, emit (ELogExc ''Unexpected exception in master process loop'' x) s)"

text \<open>
  Children terminate on their own, outside the master's code: a child that is not yet
  a zombie becomes one, with its wait status.
\<close>

fun children_exit :: "(int \<times> nat) list \<Rightarrow> forkd \<Rightarrow> forkd" where
  "children_exit [] s = s"
| "children_exit ((pid, st) # died) s =
     children_exit died
       (if pid \<in> set (children (world s)) \<and> pid \<notin> fst ` set (zombies (world s))
        then s\<lparr>world := (world s)\<lparr>zombies := zombies (world s) @ [(pid, st)]\<rparr>\<rparr>
        else s)"

text \<open>
  How a run of the loop ends: it returns, an exception leaves it, or it stays blocked
  in \<open>readline\<close> because nothing more arrives.
\<close>

datatype loop_outcome = Returned forkd | Crashed exn forkd | Blocked forkd

text \<open>
  The \<open>while self._workers\<close> loop against a script: for each call of \<open>readline\<close>, the
  children that have terminated by the time it returns, and what it returns.
\<close>

fun loop_from :: "nat \<Rightarrow> ((int \<times> nat) list \<times> rd) list \<Rightarrow> forkd \<Rightarrow> loop_outcome" where
  "loop_from f [] s = (if workers s = [] then Returned s else Blocked s)"
| "loop_from f ((died, r) # script) s =
     (if workers s = [] then Returned s
      else case loop_body f r (children_exit died s) of
             Inr (Break, s1) \<Rightarrow> Returned s1
           | Inr (Continue, s1) \<Rightarrow> loop_from f script s1
           | Inl (x, s1) \<Rightarrow>
               (case except_clauses x s1 of
                  None \<Rightarrow> loop_from f script s1
                | Some (x', s2) \<Rightarrow> Crashed x' s2))"

text \<open>\<open>_loop\<close>: \<open>os.fdopen(self._signal_pipe[0], 'r')\<close>, then the loop.\<close>

definition loop :: "((int \<times> nat) list \<times> rd) list \<Rightarrow> forkd \<Rightarrow> loop_outcome" where
  "loop script s =
     (case signal_pipe s of
        None \<Rightarrow> Crashed TypeError s
      | Some p \<Rightarrow> loop_from (fst p) script (emit (EFdopen (fst p)) s))"

text \<open>\<open>run\<close>, statement by statement.\<close>

definition run :: "((int \<times> nat) list \<times> rd) list \<Rightarrow> forkd \<Rightarrow> loop_outcome" where
  "run script s =
     (case do_setup (s\<lparr>status := Starting\<rparr>) of
        Inl (e, s1) \<Rightarrow> Crashed e s1
      | Inr s1 \<Rightarrow>
          (case loop script ((spawn_workers s1)\<lparr>status := Running\<rparr>) of
             Returned s2 \<Rightarrow> Returned (s2\<lparr>status := Ended\<rparr>)
           | Crashed e s2 \<Rightarrow> Crashed e s2
           | Blocked s2 \<Rightarrow> Blocked s2))"

subsection \<open>The worker runtime\<close>

text \<open>
  The child's side of \<open>_spawn_worker\<close>. \<open>os.read(worker_pipe[0], 1)\<close> returns a string
  of at most one byte or raises \<open>OSError\<close>. \<open>worker.next()\<close> yields, or raises:
  \<open>StopIteration\<close>; another exception of class \<open>Exception\<close> (\<open>Failed\<close>); or one of the
  two exceptions that are not of class \<open>Exception\<close>, \<open>SystemExit\<close> with its code (the
  generator called \<open>sys.exit\<close>) and \<open>KeyboardInterrupt\<close>. The \<open>n\<close>-th round of the
  loop gets \<open>polls n\<close> and, if it advances the generator, \<open>steps n\<close>.
\<close>

datatype poll = Read string | ReadErr int

datatype step = Yielded | StopIteration | Failed | Exits int | Interrupts


text \<open>
  The \<open>try\<close>/\<open>except\<close>/\<open>else\<close> around \<open>os.read\<close>: the exception raised again, or
  whether the quit byte was read.
\<close>

definition poll_quit :: "poll \<Rightarrow> exn + bool" where
  "poll_quit p =
     (case p of
        ReadErr e \<Rightarrow> if e \<noteq> EAGAIN then Inl (OSError e) else Inr False
      | Read ch \<Rightarrow> Inr (ch = WORKER_QUIT))"





subsection \<open>Observations on traces and outcomes\<close>

text \<open>The forks of a trace, the descriptors the quit byte was written to, the reads.\<close>

definition forks :: "event list \<Rightarrow> (int \<times> sup_status) list" where
  "forks evs = [(pid, st). EFork pid st \<leftarrow> evs]"

definition quit_writes :: "event list \<Rightarrow> nat list" where
  "quit_writes evs = [fd. EWrite fd str \<leftarrow> evs, str = WORKER_QUIT]"

definition readlines :: "event list \<Rightarrow> nat list" where
  "readlines evs = [f. EReadline f \<leftarrow> evs]"

definition closes :: "event list \<Rightarrow> nat list" where
  "closes evs = [fd. EClose fd \<leftarrow> evs]"

definition waits :: "event list \<Rightarrow> (int \<times> nat) list" where
  "waits evs = [(pid, st). EWaitpid pid st \<leftarrow> evs]"

text \<open>The object at the end of a handler or of the loop, however it ended.\<close>

fun after :: "outcome \<Rightarrow> forkd" where
  "after (Inl (e, s)) = s"
| "after (Inr s) = s"

fun final :: "loop_outcome \<Rightarrow> forkd" where
  "final (Returned s) = s"
| "final (Crashed e s) = s"
| "final (Blocked s) = s"

definition running_pids :: "forkd \<Rightarrow> int list" where
  "running_pids s = [pid. (pid, w) \<leftarrow> workers s, wstatus w = WRunning]"

subsection \<open>Concrete inputs\<close>

text \<open>A master with pid 100 that has no children and has done nothing yet.\<close>

definition w0 :: world where
  "w0 = \<lparr>self_pid = 100, last_pid = 100, next_fd = 3, children = [], zombies = [],
         sigtable = [], trace = [], wait_fault = None\<rparr>"

text \<open>The registry's running pids, as a function of the association list.\<close>

definition running_of :: "(int \<times> worker) list \<Rightarrow> int list" where
  "running_of ws = [pid. (pid, w) \<leftarrow> ws, wstatus w = WRunning]"

text \<open>
  Three masters in the middle of \<open>run()\<close>: two workers and nothing read yet; two
  workers after the master sent itself a hangup; one worker after the master was told
  to terminate.
\<close>

definition ex_two :: forkd where
  "ex_two = final (run [] (Forkd 2 w0))"

definition ex_hup :: forkd where
  "ex_hup = final (run [([], Line ''H 100'')] (Forkd 2 w0))"

definition ex_shut :: forkd where
  "ex_shut = final (run [([], Line ''T 100'')] (Forkd 1 w0))"

subsection \<open>Rounds of the worker loop\<close>










subsection \<open>Channels and the quit byte\<close>

text \<open>
  The write ends of the registry's pipes are pairwise different and below the
  descriptor counter, no quit byte has gone to the pipe of a record that is still
  running, and no descriptor has received the quit byte twice.
\<close>

definition quit_once :: "forkd \<Rightarrow> bool" where
  "quit_once s \<longleftrightarrow>
     distinct (map (\<lambda>(pid, w). snd (pipe w)) (workers s))
     \<and> (\<forall>(pid, w) \<in> set (workers s).
           snd (pipe w) < next_fd (world s)
           \<and> (wstatus w = WRunning \<longrightarrow> snd (pipe w) \<notin> set (quit_writes (trace (world s)))))
     \<and> distinct (quit_writes (trace (world s)))
     \<and> (\<forall>fd \<in> set (quit_writes (trace (world s))). fd < next_fd (world s))"

subsection \<open>The registry and the children\<close>

text \<open>
  The registry mirrors the children of the process: its keys are the children not yet
  waited for, zombies are children and listed once, and every child's pid is positive
  and was handed out by an earlier fork.
\<close>

definition registry_ok :: "forkd \<Rightarrow> bool" where
  "registry_ok s \<longleftrightarrow>
     distinct (map fst (workers s))
     \<and> set (map fst (workers s)) = set (children (world s))
     \<and> distinct (map fst (zombies (world s)))
     \<and> fst ` set (zombies (world s)) \<subseteq> set (children (world s))
     \<and> (\<forall>pid \<in> set (children (world s)). 0 < pid \<and> pid \<le> int (last_pid (world s)))"

text \<open>
  The records of the children that have not terminated, and the pipe ends of those that
  have, in the order in which \<open>waitpid\<close> will report them.
\<close>

definition survivors :: "forkd \<Rightarrow> (int \<times> worker) list" where
  "survivors s = filter (\<lambda>(pid, w). pid \<notin> fst ` set (zombies (world s))) (workers s)"

definition reaped_closes :: "forkd \<Rightarrow> nat list" where
  "reaped_closes s =
     concat (map (\<lambda>(pid, st). case map_of (workers s) pid of
                                 Some w \<Rightarrow> [fst (pipe w), snd (pipe w)]
                               | None \<Rightarrow> [])
                 (zombies (world s)))"

text \<open>
  The master with two workers after worker 101 was killed with signal 9; and the
  master of \<open>ex_shut\<close> after it was asked for one more worker while shutting down.
\<close>

definition ex_crash :: forkd where
  "ex_crash = children_exit [(101, 9)] ex_two"


definition ex_shut_add :: forkd where
  "ex_shut_add = final (run [([], Line ''T 100''), ([], Line ''1 100'')] (Forkd 1 w0))"

subsection \<open>After the start\<close>

text \<open>
  The trace began with \<open>base\<close>, the status is \<open>running\<close> or \<open>shutdown\<close>, and every
  fork after \<open>base\<close> was made with one of these two statuses.
\<close>

definition after_start :: "event list \<Rightarrow> forkd \<Rightarrow> bool" where
  "after_start base s \<longleftrightarrow>
     (status s = Running \<or> status s = Shutdown)
     \<and> take (length base) (trace (world s)) = base
     \<and> length base \<le> length (trace (world s))
     \<and> list_all (\<lambda>(pid, st). st = Running \<or> st = Shutdown)
          (forks (drop (length base) (trace (world s))))"

section \<open>Verification\<close>

subsection \<open>Basic facts about the primitives\<close>

lemma emit_fields [simp]:
  "num_workers (emit e s) = num_workers s"
  "status (emit e s) = status s"
  "signal_pipe (emit e s) = signal_pipe s"
  "workers (emit e s) = workers s"
  "trace (world (emit e s)) = trace (world s) @ [e]"
  "self_pid (world (emit e s)) = self_pid (world s)"
  "last_pid (world (emit e s)) = last_pid (world s)"
  "next_fd (world (emit e s)) = next_fd (world s)"
  "children (world (emit e s)) = children (world s)"
  "zombies (world (emit e s)) = zombies (world s)"
  "sigtable (world (emit e s)) = sigtable (world s)"
  "wait_fault (world (emit e s)) = wait_fault (world s)"
  by (simp_all add: emit_def)

lemma os_getpid_emit [simp]: "os_getpid (emit e s) = os_getpid s"
  by (simp add: os_getpid_def)

subsection \<open>Setup\<close>

lemma signal_each_known:
  assumes "set names \<subseteq> fst ` set SIGNAL_IDS"
  shows "\<exists>t. signal_each names s = Inr t \<and> num_workers t = num_workers s \<and> status t = status s
     \<and> signal_pipe t = signal_pipe s \<and> workers t = workers s
     \<and> trace (world t) = trace (world s) @ map ESignal names
     \<and> self_pid (world t) = self_pid (world s) \<and> last_pid (world t) = last_pid (world s)
     \<and> next_fd (world t) = next_fd (world s)
     \<and> children (world t) = children (world s) \<and> zombies (world t) = zombies (world s)"
  using assms
proof (induction names arbitrary: s)
  case Nil
  then show ?case by simp
next
  case (Cons a names)
  then obtain sid where sid: "map_of SIGNAL_IDS a = Some sid"
    by (metis domD dom_map_of_conv_image_fst list.set_intros(1) subsetD)
  define s' where "s' = emit (ESignal a)
     (s\<lparr>world := (world s)\<lparr>sigtable := AList.update a sid (sigtable (world s))\<rparr>\<rparr>)"
  from Cons.prems have "set names \<subseteq> fst ` set SIGNAL_IDS" by simp
  from Cons.IH[OF this, of s'] obtain t where t: "signal_each names s' = Inr t"
    "num_workers t = num_workers s'" "status t = status s'" "signal_pipe t = signal_pipe s'"
    "workers t = workers s'" "trace (world t) = trace (world s') @ map ESignal names"
    "self_pid (world t) = self_pid (world s')" "last_pid (world t) = last_pid (world s')"
    "next_fd (world t) = next_fd (world s')" "children (world t) = children (world s')"
    "zombies (world t) = zombies (world s')"
    by blast
  have "signal_each (a # names) s = Inr t"
    using t(1) by (simp add: signal_def sid s'_def)
  then show ?case using t(2-) by (simp add: s'_def)
qed

lemma do_setup_ok:
  "\<exists>t. do_setup s = Inr t \<and> num_workers t = num_workers s \<and> status t = status s
     \<and> signal_pipe t = Some (next_fd (world s), next_fd (world s) + 1) \<and> workers t = workers s
     \<and> trace (world t) = trace (world s) @ EPipe (next_fd (world s)) (next_fd (world s) + 1)
                             # map ESignal (map fst SIGNAL_IDS)
     \<and> self_pid (world t) = self_pid (world s) \<and> last_pid (world t) = last_pid (world s)
     \<and> next_fd (world t) = next_fd (world s) + 2
     \<and> children (world t) = children (world s) \<and> zombies (world t) = zombies (world s)"
proof -
  define s1 where "s1 = (snd (os_pipe s))\<lparr>signal_pipe := Some (fst (os_pipe s))\<rparr>"
  have "set (map fst SIGNAL_IDS) \<subseteq> fst ` set SIGNAL_IDS" by simp
  from signal_each_known[OF this, of s1] obtain t where t: "signal_each (map fst SIGNAL_IDS) s1 = Inr t"
    "num_workers t = num_workers s1" "status t = status s1" "signal_pipe t = signal_pipe s1"
    "workers t = workers s1" "trace (world t) = trace (world s1) @ map ESignal (map fst SIGNAL_IDS)"
    "self_pid (world t) = self_pid (world s1)" "last_pid (world t) = last_pid (world s1)"
    "next_fd (world t) = next_fd (world s1)" "children (world t) = children (world s1)"
    "zombies (world t) = zombies (world s1)"
    by blast
  have "do_setup s = Inr t"
    using t(1) by (simp add: do_setup_def s1_def case_prod_beta)
  then show ?thesis using t(2-) by (simp add: s1_def os_pipe_def Let_def)
qed

lemma spawn_workers_none: "num_workers s \<le> int (length (workers s)) \<Longrightarrow> spawn_workers s = s"
  by (simp add: spawn_workers_def)

subsection \<open>A master without workers\<close>

text \<open>
  C10. Constructed with \<open>num_workers \<le> 0\<close>, \<open>run()\<close> returns with status \<open>ended\<close> and an
  empty registry whatever the signal channel would deliver; its effects are the signal
  pipe, the seven handlers and the \<open>fdopen\<close>: no fork and no \<open>readline\<close>.
\<close>

theorem run_without_workers:
  assumes "n \<le> 0"
  shows "\<exists>t. run script (Forkd n w) = Returned t \<and> status t = Ended \<and> workers t = []
           \<and> num_workers t = n
           \<and> trace (world t) = trace w @ EPipe (next_fd w) (next_fd w + 1)
                 # map ESignal (map fst SIGNAL_IDS) @ [EFdopen (next_fd w)]"
proof -
  define s0 where "s0 = (Forkd n w)\<lparr>status := Starting\<rparr>"
  from do_setup_ok[of s0] obtain s1 where s1: "do_setup s0 = Inr s1" "num_workers s1 = n"
    "signal_pipe s1 = Some (next_fd w, next_fd w + 1)" "workers s1 = []"
    "trace (world s1) = trace w @ EPipe (next_fd w) (next_fd w + 1) # map ESignal (map fst SIGNAL_IDS)"
    by (auto simp: s0_def Forkd_def)
  have sp: "spawn_workers s1 = s1"
    using assms s1 by (simp add: spawn_workers_none)
  have lp: "loop script (s1\<lparr>status := Running\<rparr>)
              = Returned (emit (EFdopen (next_fd w)) (s1\<lparr>status := Running\<rparr>))"
    using s1 by (cases script) (auto simp: loop_def)
  show ?thesis
    using s1 by (simp add: run_def s0_def[symmetric] sp lp)
qed

theorem run_without_workers_witness:
  "(0::int) \<le> 0 \<and>
   (\<exists>t. run [([], Line ''T 100'')] (Forkd 0 w0) = Returned t \<and> status t = Ended \<and> workers t = []
        \<and> forks (trace (world t)) = [] \<and> readlines (trace (world t)) = [])"
proof -
  from run_without_workers[of 0 "[([], Line ''T 100'')]" w0]
  obtain t where t: "run [([], Line ''T 100'')] (Forkd 0 w0) = Returned t" "status t = Ended"
    "workers t = []"
    "trace (world t) = trace w0 @ EPipe (next_fd w0) (next_fd w0 + 1)
                 # map ESignal (map fst SIGNAL_IDS) @ [EFdopen (next_fd w0)]"
    by auto
  have "forks (trace (world t)) = []" "readlines (trace (world t)) = []"
    by (simp_all add: t(4) forks_def readlines_def w0_def SIGNAL_IDS_def)
  with t show ?thesis by simp
qed

subsection \<open>Evaluating concrete runs\<close>

lemmas eval_defs = run_def Forkd_def w0_def do_setup_def os_pipe_def Let_def SIGNAL_IDS_def
  SIGNAL_IDS_REV_def signal_def spawn_workers_def spawn_worker_def os_fork_def fcntl_nonblock_def
  log_def os_getpid_def loop_def loop_body_def parse_msg_def py_strip_def py_split_def is_space_def
  py_int_def is_digit_def digits_val_def getattr_def SIGHUP_def SIGTERM_def SIGINT_def SIGQUIT_def
  SIGUSR1_def SIGUSR2_def SIGCHLD_def respawn_workers_def shutdown_def shutdown_workers_def
  shutdown_worker_def os_write_def os_close_def os_waitpid_def WORKER_QUIT_def add_worker_def
  remove_worker_def newline_def emit_def eval_nat_numeral forks_def quit_writes_def readlines_def
  running_pids_def EINTR_def ECHILD_def

lemma ex_two_eq:
  "ex_two = \<lparr>num_workers = 2, status = Running, signal_pipe = Some (3, 4),
     workers = [(101, \<lparr>pipe = (5, 6), wstatus = WRunning\<rparr>),
                (102, \<lparr>pipe = (7, 8), wstatus = WRunning\<rparr>)],
     world = \<lparr>self_pid = 100, last_pid = 102, next_fd = 9, children = [101, 102], zombies = [],
       sigtable = SIGNAL_IDS,
       trace = [EPipe 3 4, ESignal ''SIGCHLD'', ESignal ''SIGHUP'', ESignal ''SIGINT'',
         ESignal ''SIGQUIT'', ESignal ''SIGUSR1'', ESignal ''SIGUSR2'', ESignal ''SIGTERM'',
         EPipe 5 6, ENonblock 5, EFork 101 Starting,
         ELog Info ''[%s] started worker %s'' [AInt 100, AInt 101],
         EPipe 7 8, ENonblock 7, EFork 102 Starting,
         ELog Info ''[%s] started worker %s'' [AInt 100, AInt 102],
         EFdopen 3],
       wait_fault = None\<rparr>\<rparr>"
  by (simp add: ex_two_def eval_defs)

lemma ex_hup_eq:
  "ex_hup = \<lparr>num_workers = 2, status = Running, signal_pipe = Some (3, 4),
     workers = [(101, \<lparr>pipe = (5, 6), wstatus = WShutdown\<rparr>),
                (102, \<lparr>pipe = (7, 8), wstatus = WShutdown\<rparr>)],
     world = \<lparr>self_pid = 100, last_pid = 102, next_fd = 9, children = [101, 102], zombies = [],
       sigtable = SIGNAL_IDS,
       trace = [EPipe 3 4, ESignal ''SIGCHLD'', ESignal ''SIGHUP'', ESignal ''SIGINT'',
         ESignal ''SIGQUIT'', ESignal ''SIGUSR1'', ESignal ''SIGUSR2'', ESignal ''SIGTERM'',
         EPipe 5 6, ENonblock 5, EFork 101 Starting,
         ELog Info ''[%s] started worker %s'' [AInt 100, AInt 101],
         EPipe 7 8, ENonblock 7, EFork 102 Starting,
         ELog Info ''[%s] started worker %s'' [AInt 100, AInt 102],
         EFdopen 3, EReadline 3, ELog Debug ''[%s] SIGHUP from %d'' [AInt 100, AInt 100],
         ELog Info ''[%s] respawning workers'' [AInt 100], EWrite 6 ''Q'', EWrite 8 ''Q''],
       wait_fault = None\<rparr>\<rparr>"
  by (simp add: ex_hup_def eval_defs)

lemma ex_shut_eq:
  "ex_shut = \<lparr>num_workers = 0, status = Shutdown, signal_pipe = Some (3, 4),
     workers = [(101, \<lparr>pipe = (5, 6), wstatus = WShutdown\<rparr>)],
     world = \<lparr>self_pid = 100, last_pid = 101, next_fd = 7, children = [101], zombies = [],
       sigtable = SIGNAL_IDS,
       trace = [EPipe 3 4, ESignal ''SIGCHLD'', ESignal ''SIGHUP'', ESignal ''SIGINT'',
         ESignal ''SIGQUIT'', ESignal ''SIGUSR1'', ESignal ''SIGUSR2'', ESignal ''SIGTERM'',
         EPipe 5 6, ENonblock 5, EFork 101 Starting,
         ELog Info ''[%s] started worker %s'' [AInt 100, AInt 101],
         EFdopen 3, EReadline 3, ELog Debug ''[%s] SIGTERM from %d'' [AInt 100, AInt 100],
         ELog Info ''[%s] shutting down'' [AInt 100], EWrite 6 ''Q''],
       wait_fault = None\<rparr>\<rparr>"
  by (simp add: ex_shut_def eval_defs)

subsection \<open>Removing a worker\<close>

lemma find_running_map_of:
  assumes "distinct (map fst ws)" "find (\<lambda>(pid, w). wstatus w = WRunning) ws = Some (pid, w)"
  shows "map_of ws pid = Some w \<and> wstatus w = WRunning \<and> (pid, w) \<in> set ws"
proof -
  from assms(2) have "(pid, w) \<in> set ws \<and> wstatus w = WRunning"
    by (auto simp: find_Some_iff in_set_conv_nth)
  with assms(1) show ?thesis by simp
qed

lemma remove_first_find:
  "remove_first items s =
     (case find (\<lambda>(pid, w). wstatus w = WRunning) items of
        None \<Rightarrow> Inr s
      | Some (pid, w) \<Rightarrow> shutdown_worker pid s)"
  by (induction items s rule: remove_first.induct) auto

lemma running_of_update:
  assumes "distinct (map fst ws)" "map_of ws pid = Some w" "wstatus w = WRunning"
  shows "running_of (AList.update pid (w\<lparr>wstatus := WShutdown\<rparr>) ws) = remove1 pid (running_of ws)"
  using assms
proof (induction ws)
  case Nil
  then show ?case by simp
next
  case (Cons a ws)
  obtain p v where a: "a = (p, v)" by (cases a)
  show ?case
  proof (cases "p = pid")
    case True
    with Cons.prems a have "v = w" by simp
    have "pid \<notin> fst ` set ws" using Cons.prems(1) a True by auto
    then have "pid \<notin> set (running_of ws)" by (force simp: running_of_def)
    then show ?thesis using a True \<open>v = w\<close> Cons.prems(3)
      by (simp add: running_of_def)
  next
    case False
    with Cons a have IH: "running_of (AList.update pid (w\<lparr>wstatus := WShutdown\<rparr>) ws)
        = remove1 pid (running_of ws)"
      by simp
    show ?thesis using a False IH by (simp add: running_of_def)
  qed
qed

lemma update_keys_same:
  "map_of ws pid = Some w \<Longrightarrow> map fst (AList.update pid v ws) = map fst ws"
  by (induction ws) (auto split: if_splits)

text \<open>
  C3, as the code has it. With a target of at most 1, \<open>remove_worker()\<close> changes nothing.
  With a larger target it lowers the target by one and tells the first running worker
  in the registry's iteration order to quit: that worker's status becomes \<open>shutdown\<close>, the
  quit byte goes to its pipe and to no other. When no worker is running, the target is
  lowered all the same and no worker is told anything.
\<close>

theorem remove_worker_first_running:
  assumes "distinct (map fst (workers s))"
  shows "(num_workers s \<le> 1 \<longrightarrow> remove_worker s = Inr s) \<and>
         (1 < num_workers s \<longrightarrow>
            (\<exists>t. remove_worker s = Inr t \<and> num_workers t = num_workers s - 1
               \<and> status t = status s \<and> signal_pipe t = signal_pipe s
               \<and> map fst (workers t) = map fst (workers s)
               \<and> (case find (\<lambda>(pid, w). wstatus w = WRunning) (workers s) of
                     None \<Rightarrow> workers t = workers s
                              \<and> quit_writes (trace (world t)) = quit_writes (trace (world s))
                   | Some (pid, w) \<Rightarrow>
                       workers t = AList.update pid (w\<lparr>wstatus := WShutdown\<rparr>) (workers s)
                       \<and> pid \<in> set (running_pids s)
                       \<and> running_pids t = remove1 pid (running_pids s)
                       \<and> quit_writes (trace (world t))
                           = quit_writes (trace (world s)) @ [snd (pipe w)])))"
proof (intro conjI impI)
  assume "num_workers s \<le> 1"
  then show "remove_worker s = Inr s" by (simp add: remove_worker_def)
next
  assume big: "1 < num_workers s"
  define s1 where "s1 = log Info ''[%s] removing worker, num_workers=%d''
      [AInt (os_getpid s), AInt (num_workers s - 1)] (s\<lparr>num_workers := num_workers s - 1\<rparr>)"
  have rw: "remove_worker s = remove_first (workers s) s1"
    using big by (simp add: remove_worker_def s1_def Let_def os_getpid_def)
  have s1: "workers s1 = workers s" "num_workers s1 = num_workers s - 1" "status s1 = status s"
    "signal_pipe s1 = signal_pipe s"
    "quit_writes (trace (world s1)) = quit_writes (trace (world s))"
    by (simp_all add: s1_def log_def quit_writes_def)
  show "\<exists>t. remove_worker s = Inr t \<and> num_workers t = num_workers s - 1
               \<and> status t = status s \<and> signal_pipe t = signal_pipe s
               \<and> map fst (workers t) = map fst (workers s)
               \<and> (case find (\<lambda>(pid, w). wstatus w = WRunning) (workers s) of
                     None \<Rightarrow> workers t = workers s
                              \<and> quit_writes (trace (world t)) = quit_writes (trace (world s))
                   | Some (pid, w) \<Rightarrow>
                       workers t = AList.update pid (w\<lparr>wstatus := WShutdown\<rparr>) (workers s)
                       \<and> pid \<in> set (running_pids s)
                       \<and> running_pids t = remove1 pid (running_pids s)
                       \<and> quit_writes (trace (world t))
                           = quit_writes (trace (world s)) @ [snd (pipe w)])"
  proof (cases "find (\<lambda>(pid, w). wstatus w = WRunning) (workers s)")
    case None
    then show ?thesis using s1 by (simp add: rw remove_first_find)
  next
    case (Some a)
    obtain pid w where a: "a = (pid, w)" by (cases a)
    from find_running_map_of[OF assms Some[unfolded a]]
    have w: "map_of (workers s) pid = Some w" "wstatus w = WRunning" "(pid, w) \<in> set (workers s)"
      by simp_all
    define t where "t = os_write (snd (pipe w)) WORKER_QUIT
        (s1\<lparr>workers := AList.update pid (w\<lparr>wstatus := WShutdown\<rparr>) (workers s)\<rparr>)"
    have "remove_worker s = Inr t"
      using Some a w s1 by (simp add: rw remove_first_find shutdown_worker_def t_def)
    moreover have "pid \<in> set (running_pids s)"
      using w by (force simp: running_pids_def)
    moreover have "running_pids t = remove1 pid (running_pids s)"
      using running_of_update[OF assms w(1,2)]
      by (simp add: t_def os_write_def running_pids_def running_of_def)
    moreover have "quit_writes (trace (world t)) = quit_writes (trace (world s)) @ [snd (pipe w)]"
      using s1(5) by (simp add: t_def os_write_def quit_writes_def)
    moreover have "map fst (workers t) = map fst (workers s)"
      using update_keys_same[OF w(1)] by (simp add: t_def os_write_def)
    ultimately show ?thesis
      using Some a s1 by (simp add: t_def os_write_def)
  qed
qed

text \<open>
  The theorem at two masters: one with two running workers and target 2, where worker
  101 is told to quit, and one with target 0, where nothing changes.
\<close>

theorem remove_worker_first_running_witness:
  "distinct (map fst (workers ex_two)) \<and> 1 < num_workers ex_two
   \<and> (\<exists>t. remove_worker ex_two = Inr t \<and> num_workers t = 1
          \<and> running_pids t = [102] \<and> quit_writes (trace (world t)) = [6])
   \<and> distinct (map fst (workers ex_shut)) \<and> num_workers ex_shut \<le> 1
   \<and> remove_worker ex_shut = Inr ex_shut"
proof -
  have d: "distinct (map fst (workers ex_two))" "distinct (map fst (workers ex_shut))"
    by (simp_all add: ex_two_eq ex_shut_eq)
  have n: "1 < num_workers ex_two" "num_workers ex_shut \<le> 1"
    by (simp_all add: ex_two_eq ex_shut_eq)
  from remove_worker_first_running[OF d(1)] n(1)
  obtain t where t: "remove_worker ex_two = Inr t" "num_workers t = num_workers ex_two - 1"
    "case find (\<lambda>(pid, w). wstatus w = WRunning) (workers ex_two) of
       None \<Rightarrow> workers t = workers ex_two
                \<and> quit_writes (trace (world t)) = quit_writes (trace (world ex_two))
     | Some (pid, w) \<Rightarrow>
         workers t = AList.update pid (w\<lparr>wstatus := WShutdown\<rparr>) (workers ex_two)
         \<and> pid \<in> set (running_pids ex_two)
         \<and> running_pids t = remove1 pid (running_pids ex_two)
         \<and> quit_writes (trace (world t)) = quit_writes (trace (world ex_two)) @ [snd (pipe w)]"
    by blast
  from t(3) have "running_pids t = [102] \<and> quit_writes (trace (world t)) = [6]"
    by (simp add: ex_two_eq running_pids_def quit_writes_def)
  moreover from remove_worker_first_running[OF d(2)] n(2)
  have "remove_worker ex_shut = Inr ex_shut" by blast
  ultimately show ?thesis using d n t(1,2) by (simp add: ex_two_eq)
qed

text \<open>
  The claim as it was stated fails where no worker is running: after the master's own
  hangup both workers are already marked, the target is still 2, and \<open>remove_worker()\<close>
  lowers the target without marking a worker or writing a byte.
\<close>

theorem remove_worker_none_running:
  "1 < num_workers ex_hup \<and> running_pids ex_hup = []
   \<and> num_workers (after (remove_worker ex_hup)) = 1
   \<and> workers (after (remove_worker ex_hup)) = workers ex_hup
   \<and> quit_writes (trace (world (after (remove_worker ex_hup))))
       = quit_writes (trace (world ex_hup))"
  by (simp add: ex_hup_eq remove_worker_def log_def os_getpid_def running_pids_def quit_writes_def)

subsection \<open>Adding a worker during shutdown\<close>

text \<open>
  C1 at a failing input. The master of \<open>ex_shut\<close> is shutting down: its status is
  \<open>shutdown\<close>, its target 0, its one worker has been told to quit. \<open>add_worker()\<close>
  raises the target to 1, and a second \<open>add_worker()\<close> forks worker 102 while the
  status is \<open>shutdown\<close>. The same happens when the two requests come through the loop.
\<close>

theorem add_worker_during_shutdown:
  "status ex_shut = Shutdown \<and> num_workers ex_shut = 0 \<and> map fst (workers ex_shut) = [101]
   \<and> num_workers (add_worker ex_shut) = 1
   \<and> map fst (workers (add_worker (add_worker ex_shut))) = [101, 102]
   \<and> forks (trace (world (add_worker (add_worker ex_shut)))) = [(101, Starting), (102, Shutdown)]
   \<and> forks (trace (world (final (run [([], Line ''T 100''), ([], Line ''1 100''),
                                        ([], Line ''1 100'')] (Forkd 1 w0)))))
       = [(101, Starting), (102, Shutdown)]"
proof -
  have "forks (trace (world (final (run [([], Line ''T 100''), ([], Line ''1 100''),
                                        ([], Line ''1 100'')] (Forkd 1 w0)))))
       = [(101, Starting), (102, Shutdown)]"
    by (simp add: eval_defs)
  then show ?thesis by (simp add: ex_shut_eq eval_defs)
qed

subsection \<open>Decimal rendering and decoding\<close>

lemma of_char_digit_char: "d < 10 \<Longrightarrow> (of_char (digit_char d) :: nat) = 48 + d"
  by (simp add: digit_char_def)

lemma is_digit_digit_char: "d < 10 \<Longrightarrow> is_digit (digit_char d)"
  by (simp add: is_digit_def of_char_digit_char)

lemma is_digit_not_space: "is_digit c \<Longrightarrow> \<not> is_space c"
  by (auto simp: is_digit_def is_space_def)

lemma is_digit_not_sign: "is_digit c \<Longrightarrow> c \<noteq> CHR ''-'' \<and> c \<noteq> CHR ''+''"
  by (auto simp: is_digit_def)

lemma str_nat_digits: "list_all is_digit (str_nat n)"
proof (induction n rule: str_nat.induct)
  case (1 n)
  show ?case
  proof (cases "n < 10")
    case True
    then show ?thesis by (subst str_nat.simps) (simp add: is_digit_digit_char)
  next
    case False
    with 1 have "list_all is_digit (str_nat (n div 10))" by simp
    then show ?thesis using False
      by (subst str_nat.simps) (simp add: is_digit_digit_char)
  qed
qed

lemma str_nat_nonempty: "str_nat n \<noteq> []"
  by (subst str_nat.simps) simp

lemma digits_val_snoc: "digits_val (ds @ [c]) = 10 * digits_val ds + (of_char c - 48)"
  by (simp add: digits_val_def)

lemma digits_val_str_nat: "digits_val (str_nat n) = n"
proof (induction n rule: str_nat.induct)
  case (1 n)
  show ?case
  proof (cases "n < 10")
    case True
    then show ?thesis
      by (subst str_nat.simps) (simp add: digits_val_def of_char_digit_char)
  next
    case False
    with 1 have "digits_val (str_nat (n div 10)) = n div 10" by simp
    then show ?thesis using False
      by (subst str_nat.simps) (simp add: digits_val_snoc of_char_digit_char)
  qed
qed

lemma py_int_str_nat: "py_int (str_nat n) = Some (int n)"
proof -
  obtain c r where cr: "str_nat n = c # r"
    using str_nat_nonempty[of n] by (cases "str_nat n") auto
  have "is_digit c" using str_nat_digits[of n] cr by simp
  then have "c \<noteq> CHR ''-''" "c \<noteq> CHR ''+''" using is_digit_not_sign by auto
  then have "py_int (str_nat n) =
      (if list_all is_digit (str_nat n) then Some (int (digits_val (str_nat n))) else None)"
    by (simp add: py_int_def cr)
  then show ?thesis by (simp add: str_nat_digits digits_val_str_nat)
qed

lemma py_split_aux_token:
  "list_all (\<lambda>c. \<not> is_space c) ds \<Longrightarrow> py_split_aux cur (ds @ rest) = py_split_aux (cur @ ds) rest"
  by (induction ds arbitrary: cur) auto

lemma py_strip_line:
  assumes "\<not> is_space c" "ds \<noteq> []" "list_all (\<lambda>c. \<not> is_space c) ds"
  shows "py_strip (c # CHR '' '' # ds @ [newline]) = c # CHR '' '' # ds"
proof -
  have nl: "is_space newline" by (simp add: is_space_def newline_def)
  obtain d ds' where d: "rev ds = d # ds'"
    using assms(2) by (cases "rev ds") auto
  then have "d \<in> set ds" by (metis list.set_intros(1) set_rev)
  with assms(3) have nd: "\<not> is_space d" by (simp add: list_all_iff)
  have a: "dropWhile is_space (c # CHR '' '' # ds @ [newline]) = c # CHR '' '' # ds @ [newline]"
    using assms(1) by simp
  have "rev (c # CHR '' '' # ds @ [newline]) = newline # rev ds @ [CHR '' '', c]"
    by simp
  then have b: "rev (c # CHR '' '' # ds @ [newline]) = newline # d # ds' @ [CHR '' '', c]"
    unfolding d by simp
  have c': "dropWhile is_space (newline # d # ds' @ [CHR '' '', c]) = d # ds' @ [CHR '' '', c]"
    using nl nd by simp
  have "rev (rev ds @ [CHR '' '', c]) = c # CHR '' '' # ds"
    by simp
  then have e: "rev (d # ds' @ [CHR '' '', c]) = c # CHR '' '' # ds"
    unfolding d by simp
  show ?thesis
    by (simp only: py_strip_def a b c' e)
qed

lemma py_split_line:
  assumes "\<not> is_space c" "ds \<noteq> []" "list_all (\<lambda>c. \<not> is_space c) ds"
  shows "py_split (c # CHR '' '' # ds) = [[c], ds]"
proof -
  have sp: "is_space CHR '' ''" by (simp add: is_space_def)
  have "py_split (c # CHR '' '' # ds) = py_split_aux [c] (CHR '' '' # ds)"
    using assms(1) by (simp add: py_split_def)
  also have "\<dots> = [c] # py_split_aux [] ds"
    using sp by simp
  also have "py_split_aux [] ds = py_split_aux [] (ds @ [])"
    by simp
  also have "\<dots> = py_split_aux ([] @ ds) []"
    by (rule py_split_aux_token[OF assms(3)])
  also have "\<dots> = [ds]"
    using assms(2) by simp
  finally show ?thesis .
qed

lemma parse_msg_line:
  assumes "\<not> is_space c" "0 \<le> p"
  shows "parse_msg ([c] @ '' '' @ str_int p @ [newline]) = Inr ([c], p)"
proof -
  define ds where "ds = str_nat (nat p)"
  have ds: "ds \<noteq> []" "list_all (\<lambda>c. \<not> is_space c) ds"
    using str_nat_nonempty str_nat_digits[of "nat p"] is_digit_not_space
    by (auto simp: ds_def list_all_iff)
  have si: "str_int p = ds" using assms(2) by (simp add: str_int_def ds_def)
  have line: "[c] @ '' '' @ str_int p @ [newline] = c # CHR '' '' # ds @ [newline]"
    by (simp add: si)
  have pi: "py_int ds = Some p"
    using py_int_str_nat[of "nat p"] assms(2) by (simp add: ds_def)
  show ?thesis
    unfolding line parse_msg_def py_strip_line[OF assms(1) ds] py_split_line[OF assms(1) ds]
    by (simp add: pi)
qed

subsection \<open>The handlers that setup installs\<close>

lemma signal_each_sigtable:
  assumes "set names \<subseteq> fst ` set SIGNAL_IDS" "signal_each names s = Inr t"
  shows "map_of (sigtable (world t)) n
           = (if n \<in> set names then map_of SIGNAL_IDS n else map_of (sigtable (world s)) n)"
  using assms
proof (induction names arbitrary: s)
  case Nil
  then show ?case by simp
next
  case (Cons a names)
  then obtain sid where sid: "map_of SIGNAL_IDS a = Some sid"
    by (metis domD dom_map_of_conv_image_fst list.set_intros(1) subsetD)
  define s' where "s' = emit (ESignal a)
     (s\<lparr>world := (world s)\<lparr>sigtable := AList.update a sid (sigtable (world s))\<rparr>\<rparr>)"
  from Cons.prems have sub: "set names \<subseteq> fst ` set SIGNAL_IDS"
    and t: "signal_each names s' = Inr t"
    by (simp_all add: signal_def sid s'_def)
  have "map_of (sigtable (world s')) = (map_of (sigtable (world s)))(a \<mapsto> sid)"
    by (simp add: s'_def update_conv')
  with Cons.IH[OF sub t] sid show ?case by auto
qed

lemma do_setup_installs:
  assumes "(signame, signal_id) \<in> set SIGNAL_IDS"
  shows "\<exists>s1. do_setup s0 = Inr s1 \<and> map_of (sigtable (world s1)) signame = Some signal_id
            \<and> signal_pipe s1 \<noteq> None"
proof -
  from do_setup_ok[of s0] obtain s1 where s1: "do_setup s0 = Inr s1" "signal_pipe s1 \<noteq> None"
    by auto
  have sub: "set (map fst SIGNAL_IDS) \<subseteq> fst ` set SIGNAL_IDS" by simp
  have d: "distinct (map fst SIGNAL_IDS)" by (simp add: SIGNAL_IDS_def)
  from s1(1) have "signal_each (map fst SIGNAL_IDS)
      ((snd (os_pipe s0))\<lparr>signal_pipe := Some (fst (os_pipe s0))\<rparr>) = Inr s1"
    by (simp add: do_setup_def case_prod_beta)
  from signal_each_sigtable[OF sub this, of signame] assms d
  have "map_of (sigtable (world s1)) signame = Some signal_id"
    by (auto simp: rev_image_eqI)
  with s1 show ?thesis by blast
qed

lemma signal_id_char:
  assumes "(signame, signal_id) \<in> set SIGNAL_IDS"
  shows "\<exists>c. signal_id = [c] \<and> \<not> is_space c"
  using assms by (auto simp: SIGNAL_IDS_def is_space_def)

text \<open>
  C8. Every handler that setup installs, run in a process with pid \<open>p\<close> whose object
  holds the signal pipe \<open>(r, w)\<close>, logs one debug record and writes one string to \<open>w\<close>:
  the one-character identifier of its signal, a space, \<open>p\<close> in decimal and a newline.
  Nothing else of the object or the world changes. For \<open>p \<ge> 0\<close> the loop's decoding
  of that line gives the identifier and \<open>p\<close> back.
\<close>

theorem relay_handler_line:
  assumes "(signame, signal_id) \<in> set SIGNAL_IDS"
    and "signal_pipe s = Some (r, w)"
    and "self_pid (world s) = p"
  shows "handler signal_id signame s =
           Inr (s\<lparr>world := (world s)\<lparr>trace := trace (world s) @
                  [ELog Debug ''[%d] signal: %s'' [AInt p, AStr signame],
                   EWrite w (signal_id @ '' '' @ str_int p @ [newline])]\<rparr>\<rparr>)
         \<and> length signal_id = 1
         \<and> (0 \<le> p \<longrightarrow> list_all is_digit (str_int p) \<and> int (digits_val (str_int p)) = p
                \<and> parse_msg (signal_id @ '' '' @ str_int p @ [newline]) = Inr (signal_id, p))
         \<and> (\<forall>s0. \<exists>s1. do_setup s0 = Inr s1
                \<and> map_of (sigtable (world s1)) signame = Some signal_id \<and> signal_pipe s1 \<noteq> None)"
proof -
  from signal_id_char[OF assms(1)] obtain c where c: "signal_id = [c]" "\<not> is_space c" by blast
  have h: "handler signal_id signame s =
           Inr (s\<lparr>world := (world s)\<lparr>trace := trace (world s) @
                  [ELog Debug ''[%d] signal: %s'' [AInt p, AStr signame],
                   EWrite w (signal_id @ '' '' @ str_int p @ [newline])]\<rparr>\<rparr>)"
    using assms(2,3) by (simp add: handler_def log_def os_write_def os_getpid_def emit_def)
  have dec: "0 \<le> p \<longrightarrow> list_all is_digit (str_int p) \<and> int (digits_val (str_int p)) = p
                \<and> parse_msg (signal_id @ '' '' @ str_int p @ [newline]) = Inr (signal_id, p)"
    using parse_msg_line[OF c(2), of p] str_nat_digits[of "nat p"] digits_val_str_nat[of "nat p"]
    by (simp add: c(1) str_int_def)
  show ?thesis
    using h c(1) dec do_setup_installs[OF assms(1)] by simp
qed

lemma str_int_100: "str_int 100 = ''100''"
  by code_simp

text \<open>The handler for \<open>SIGTERM\<close> in the master with pid 100.\<close>

theorem relay_handler_line_witness:
  "(''SIGTERM'', ''T'') \<in> set SIGNAL_IDS \<and> signal_pipe ex_two = Some (3, 4)
   \<and> self_pid (world ex_two) = 100 \<and> (0::int) \<le> 100
   \<and> trace (world (after (handler ''T'' ''SIGTERM'' ex_two)))
        = trace (world ex_two) @ [ELog Debug ''[%d] signal: %s'' [AInt 100, AStr ''SIGTERM''],
                                  EWrite 4 (''T 100'' @ [newline])]
   \<and> parse_msg (''T 100'' @ [newline]) = Inr (''T'', 100)"
proof -
  have a: "(''SIGTERM'', ''T'') \<in> set SIGNAL_IDS" by (simp add: SIGNAL_IDS_def)
  have b: "signal_pipe ex_two = Some (3, 4)" "self_pid (world ex_two) = 100"
    by (simp_all add: ex_two_eq)
  from relay_handler_line[OF a b] show ?thesis
    using a b by (simp add: str_int_100)
qed

subsection \<open>The control loop and its exceptions\<close>

lemma children_exit_fields [simp]:
  "num_workers (children_exit died s) = num_workers s"
  "status (children_exit died s) = status s"
  "signal_pipe (children_exit died s) = signal_pipe s"
  "workers (children_exit died s) = workers s"
  "trace (world (children_exit died s)) = trace (world s)"
  "self_pid (world (children_exit died s)) = self_pid (world s)"
  "last_pid (world (children_exit died s)) = last_pid (world s)"
  "next_fd (world (children_exit died s)) = next_fd (world s)"
  "children (world (children_exit died s)) = children (world s)"
  "sigtable (world (children_exit died s)) = sigtable (world s)"
  "wait_fault (world (children_exit died s)) = wait_fault (world s)"
  by (induction died s rule: children_exit.induct; simp)+

lemma os_getpid_children_exit [simp]: "os_getpid (children_exit died s) = os_getpid s"
  by (simp add: os_getpid_def)

lemma parse_msg_nonempty: "parse_msg msg = Inr x \<Longrightarrow> msg \<noteq> []"
  by (auto simp: parse_msg_def py_strip_def py_split_def)

lemma shutdown_worker_unknown:
  "pid \<notin> fst ` set (workers s) \<Longrightarrow> shutdown_worker pid s = Inl (KeyError, s)"
proof -
  assume "pid \<notin> fst ` set (workers s)"
  then have "map_of (workers s) pid = None" by (simp add: map_of_eq_None_iff)
  then show ?thesis by (simp add: shutdown_worker_def)
qed

lemma dispatch_unknown_origin:
  assumes "signal_id \<in> {''H'', ''I'', ''Q'', ''T''}"
    and "from_pid \<noteq> self_pid (world s)" "from_pid \<notin> fst ` set (workers s)"
  shows "\<exists>name h m. map_of SIGNAL_IDS_REV signal_id = Some name \<and> getattr (''_'' @ name) = Some h
           \<and> h from_pid s = Inl (KeyError, log Debug m [AInt (self_pid (world s)), AInt from_pid] s)"
proof -
  have sw: "\<And>m. shutdown_worker from_pid (log Debug m [AInt (self_pid (world s)), AInt from_pid] s)
      = Inl (KeyError, log Debug m [AInt (self_pid (world s)), AInt from_pid] s)"
    using assms(3) by (simp add: shutdown_worker_unknown log_def)
  from assms(1) consider "signal_id = ''H''" | "signal_id = ''I''" | "signal_id = ''Q''"
    | "signal_id = ''T''" by auto
  then show ?thesis
  proof cases
    case 1
    have "SIGHUP from_pid s = Inl (KeyError, log Debug ''[%s] SIGHUP from %d''
            [AInt (self_pid (world s)), AInt from_pid] s)"
      using assms(2) sw by (simp add: SIGHUP_def Let_def os_getpid_def log_def)
    then show ?thesis using 1
      by (simp add: SIGNAL_IDS_REV_def SIGNAL_IDS_def getattr_def) blast
  next
    case 2
    have "SIGINT from_pid s = Inl (KeyError, log Debug ''[%s] SIGINT from %d''
            [AInt (self_pid (world s)), AInt from_pid] s)"
      using assms(2) sw by (simp add: SIGINT_def Let_def os_getpid_def log_def)
    then show ?thesis using 2
      by (simp add: SIGNAL_IDS_REV_def SIGNAL_IDS_def getattr_def) blast
  next
    case 3
    have "SIGQUIT from_pid s = Inl (KeyError, log Debug ''[%s] SIGQUIT from %d''
            [AInt (self_pid (world s)), AInt from_pid] s)"
      using assms(2) sw by (simp add: SIGQUIT_def Let_def os_getpid_def log_def)
    then show ?thesis using 3
      by (simp add: SIGNAL_IDS_REV_def SIGNAL_IDS_def getattr_def) blast
  next
    case 4
    have "SIGTERM from_pid s = Inl (KeyError, log Debug ''[%s] SIGTERM from %d''
            [AInt (self_pid (world s)), AInt from_pid] s)"
      using assms(2) sw by (simp add: SIGTERM_def Let_def os_getpid_def log_def)
    then show ?thesis using 4
      by (simp add: SIGNAL_IDS_REV_def SIGNAL_IDS_def getattr_def) blast
  qed
qed

text \<open>
  C9. The loop reads a line that decodes to a hangup, interrupt, quit or terminate
  message whose origin is neither the master's pid nor a key of the registry. The
  handler calls \<open>_shutdown_worker\<close>, whose lookup \<open>self._workers[pid]\<close> raises
  \<open>KeyError\<close>; the loop logs it and raises it again: the loop ends with \<open>KeyError\<close>,
  the registry untouched.
\<close>

theorem unknown_origin_crashes:
  assumes "workers s \<noteq> []" "signal_pipe s = Some (f, w)"
    and "parse_msg msg = Inr (signal_id, from_pid)"
    and "signal_id \<in> {''H'', ''I'', ''Q'', ''T''}"
    and "from_pid \<noteq> self_pid (world s)" "from_pid \<notin> fst ` set (workers s)"
  shows "\<exists>s1 m. loop ((died, Line msg) # script) s = Crashed KeyError s1
           \<and> workers s1 = workers s \<and> num_workers s1 = num_workers s \<and> status s1 = status s
           \<and> trace (world s1) = trace (world s) @
                [EFdopen f, EReadline f,
                 ELog Debug m [AInt (self_pid (world s)), AInt from_pid],
                 ELogExc ''Unexpected exception in master process loop'' KeyError]"
proof -
  define s0 where "s0 = emit (EReadline f) (children_exit died (emit (EFdopen f) s))"
  have s0: "self_pid (world s0) = self_pid (world s)" "workers s0 = workers s"
    by (simp_all add: s0_def)
  from dispatch_unknown_origin[OF assms(4), of from_pid s0] assms(5,6) s0
  obtain name h m where h: "map_of SIGNAL_IDS_REV signal_id = Some name"
    "getattr (''_'' @ name) = Some h"
    "h from_pid s0 = Inl (KeyError, log Debug m [AInt (self_pid (world s)), AInt from_pid] s0)"
    by auto
  have ne: "msg \<noteq> []" using assms(3) by (rule parse_msg_nonempty)
  have body: "loop_body f (Line msg) (children_exit died (emit (EFdopen f) s))
      = Inl (KeyError, log Debug m [AInt (self_pid (world s)), AInt from_pid] s0)"
    using ne assms(3) h by (simp add: loop_body_def Let_def s0_def[symmetric])
  have "loop ((died, Line msg) # script) s = Crashed KeyError
      (emit (ELogExc ''Unexpected exception in master process loop'' KeyError)
         (log Debug m [AInt (self_pid (world s)), AInt from_pid] s0))"
    using assms(1,2) body by (simp add: loop_def)
  then show ?thesis
    by (intro exI[of _ "emit (ELogExc ''Unexpected exception in master process loop'' KeyError)
         (log Debug m [AInt (self_pid (world s)), AInt from_pid] s0)"] exI[of _ m])
       (simp add: s0_def log_def)
qed

text \<open>A terminate message from pid 4242, which the master with two workers does not know.\<close>

theorem unknown_origin_crashes_witness:
  "workers ex_two \<noteq> [] \<and> signal_pipe ex_two = Some (3, 4)
   \<and> parse_msg ''T 4242'' = Inr (''T'', 4242) \<and> ''T'' \<in> {''H'', ''I'', ''Q'', ''T''}
   \<and> 4242 \<noteq> self_pid (world ex_two) \<and> 4242 \<notin> fst ` set (workers ex_two)
   \<and> (\<exists>s1. loop [([], Line ''T 4242'')] ex_two = Crashed KeyError s1 \<and> workers s1 = workers ex_two)"
proof -
  have a: "workers ex_two \<noteq> []" "signal_pipe ex_two = Some (3, 4)"
    "4242 \<noteq> self_pid (world ex_two)" "4242 \<notin> fst ` set (workers ex_two)"
    by (simp_all add: ex_two_eq)
  have p: "parse_msg ''T 4242'' = Inr (''T'', 4242)"
    by (simp add: parse_msg_def py_strip_def py_split_def py_int_def is_space_def is_digit_def
          digits_val_def)
  have m: "''T'' \<in> {''H'', ''I'', ''Q'', ''T''}" by simp
  from unknown_origin_crashes[OF a(1,2) p m a(3,4), of "[]" "[]"]
  show ?thesis using a p by auto
qed

subsection \<open>The worker runtime\<close>



lemma poll_quit_error:
  "poll_quit p = Inl x \<longleftrightarrow> (\<exists>err. p = ReadErr err \<and> err \<noteq> EAGAIN \<and> x = OSError err)"
  by (cases p) (auto simp: poll_quit_def)















subsection \<open>Invariants of the control loop\<close>

lemma loop_from_invariant:
  assumes emit: "\<And>e s. (\<forall>fd str. e \<noteq> EWrite fd str) \<Longrightarrow> (\<forall>pid st. e \<noteq> EFork pid st) \<Longrightarrow> I s \<Longrightarrow> I (emit e s)"
    and exit: "\<And>died s. I s \<Longrightarrow> I (children_exit died s)"
    and handlers: "\<And>name h p s. getattr name = Some h \<Longrightarrow> I s \<Longrightarrow> I (after (h p s))"
    and "I s"
  shows "I (final (loop_from f script s))"
  using \<open>I s\<close>
proof (induction script arbitrary: s)
  case Nil
  then show ?case by simp
next
  case (Cons a script)
  obtain died r where a: "a = (died, r)" by (cases a)
  define s0 where "s0 = emit (EReadline f) (children_exit died s)"
  have I0: "I s0" unfolding s0_def using Cons.prems by (intro emit exit) simp_all
  show ?case
  proof (cases "workers s = []")
    case True
    then show ?thesis using Cons.prems a by simp
  next
    case False
    show ?thesis
    proof (cases "loop_body f r (children_exit died s)")
      case (Inl b)
      obtain x s1 where b: "b = (x, s1)" by (cases b)
      have I1: "I s1"
      proof (cases r)
        case (Line msg)
        show ?thesis
        proof (cases "parse_msg msg")
          case pe: (Inl e)
          with Inl b Line I0 show ?thesis
            by (auto simp: loop_body_def Let_def s0_def split: if_splits)
        next
          case pr: (Inr sp)
          obtain sid p where sp: "sp = (sid, p)" by (cases sp)
          show ?thesis
          proof (cases "map_of SIGNAL_IDS_REV sid")
            case None
            with Inl b Line I0 pr sp show ?thesis
              by (auto simp: loop_body_def Let_def s0_def split: if_splits)
          next
            case (Some name)
            show ?thesis
            proof (cases "getattr (''_'' @ name)")
              case None
              with Inl b Line I0 pr sp Some show ?thesis
                by (auto simp: loop_body_def Let_def s0_def split: if_splits)
            next
              case h: (Some h)
              from handlers[OF h I0, of p] Inl b Line pr sp Some h show ?thesis
                by (auto simp: loop_body_def Let_def s0_def split: if_splits sum.splits)
            qed
          qed
        qed
      next
        case (IOErr e)
        with Inl b I0 show ?thesis by (simp add: loop_body_def Let_def s0_def)
      qed
      show ?thesis
      proof (cases "except_clauses x s1")
        case None
        with Inl b False a Cons.IH[OF I1] show ?thesis by simp
      next
        case (Some c)
        obtain x' s2 where c: "c = (x', s2)" by (cases c)
        have "I s2"
          using Some c I1 by (cases x) (auto simp: log_def split: if_splits intro!: emit)
        with Inl b False a Some c show ?thesis by simp
      qed
    next
      case (Inr b)
      obtain fl s1 where b: "b = (fl, s1)" by (cases b)
      have I1: "I s1"
      proof (cases r)
        case (Line msg)
        show ?thesis
        proof (cases "msg = []")
          case True
          with Inr b Line I0 show ?thesis by (simp add: loop_body_def Let_def s0_def)
        next
          case ne: False
          show ?thesis
          proof (cases "parse_msg msg")
            case pe: (Inl e)
            with Inr b Line ne show ?thesis by (simp add: loop_body_def Let_def)
          next
            case pr: (Inr sp)
            obtain sid p where sp: "sp = (sid, p)" by (cases sp)
            show ?thesis
            proof (cases "map_of SIGNAL_IDS_REV sid")
              case None
              with Inr b Line ne pr sp show ?thesis by (simp add: loop_body_def Let_def)
            next
              case (Some name)
              show ?thesis
              proof (cases "getattr (''_'' @ name)")
                case None
                with Inr b Line ne pr sp Some show ?thesis by (simp add: loop_body_def Let_def)
              next
                case h: (Some h)
                from handlers[OF h I0, of p] Inr b Line ne pr sp Some h show ?thesis
                  by (auto simp: loop_body_def Let_def s0_def split: sum.splits)
              qed
            qed
          qed
        qed
      next
        case (IOErr e)
        with Inr b show ?thesis by (simp add: loop_body_def Let_def)
      qed
      show ?thesis
      proof (cases fl)
        case Continue
        with Inr b False a Cons.IH[OF I1] show ?thesis by simp
      next
        case Break
        with Inr b False a I1 show ?thesis by simp
      qed
    qed
  qed
qed

lemma getattr_cases:
  assumes "getattr name = Some h"
  obtains "h = SIGCHLD" | "h = SIGHUP" | "h = SIGINT" | "h = SIGQUIT" | "h = SIGUSR1"
    | "h = SIGUSR2" | "h = SIGTERM"
  using assms by (auto simp: getattr_def split: if_splits)

lemma handlers_invariant:
  assumes emit: "\<And>e s. (\<forall>fd str. e \<noteq> EWrite fd str) \<Longrightarrow> (\<forall>pid st. e \<noteq> EFork pid st) \<Longrightarrow> I s \<Longrightarrow> I (emit e s)"
    and sw: "\<And>pid s. I s \<Longrightarrow> I (after (shutdown_worker pid s))"
    and sp: "\<And>s. I s \<Longrightarrow> I (spawn_workers s)"
    and rp: "\<And>s. I s \<Longrightarrow> I (after (reap s))"
    and nw: "\<And>n s. I s \<Longrightarrow> I (s\<lparr>num_workers := n\<rparr>)"
    and sd: "\<And>s. I s \<Longrightarrow> I (s\<lparr>num_workers := 0, status := Shutdown\<rparr>)"
    and h: "getattr name = Some h" and "I s"
  shows "I (after (h p s))"
proof -
  have lg: "\<And>l m as s. I s \<Longrightarrow> I (log l m as s)"
    unfolding log_def by (rule emit) simp_all
  have each: "\<And>pids s. I s \<Longrightarrow> I (after (shutdown_each pids s))"
  proof -
    fix pids s
    show "I s \<Longrightarrow> I (after (shutdown_each pids s))"
    proof (induction pids arbitrary: s)
      case Nil
      then show ?case by simp
    next
      case (Cons pid pids)
      from sw[OF Cons.prems, of pid] show ?case
        by (cases "shutdown_worker pid s") (auto intro: Cons.IH)
    qed
  qed
  have resp: "\<And>items s. I s \<Longrightarrow> I (after (respawn_each items s))"
  proof -
    fix items s
    show "I s \<Longrightarrow> I (after (respawn_each items s))"
    proof (induction items s rule: respawn_each.induct)
      case (1 s)
      then show ?case by simp
    next
      case (2 pid worker items s)
      show ?case
      proof (cases "wstatus worker = WRunning")
        case True
        from sw[OF "2.prems", of pid] True "2.IH"(1) show ?thesis
          by (cases "shutdown_worker pid s") auto
      next
        case False
        with 2 show ?thesis by simp
      qed
    qed
  qed
  have remf: "\<And>items s. I s \<Longrightarrow> I (after (remove_first items s))"
  proof -
    fix items s
    show "I s \<Longrightarrow> I (after (remove_first items s))"
      by (induction items s rule: remove_first.induct) (auto intro: sw)
  qed
  have shut: "\<And>s. I s \<Longrightarrow> I (after (shutdown s))"
  proof -
    fix s
    assume "I s"
    then have "I ((log Info ''[%s] shutting down'' [AInt (os_getpid s)] s)
                \<lparr>num_workers := 0, status := Shutdown\<rparr>)"
      by (intro sd lg)
    then show "I (after (shutdown s))"
      using \<open>I s\<close> by (simp add: shutdown_def shutdown_workers_def each)
  qed
  have one: "\<And>l m as pid s. I s \<Longrightarrow> I (after (shutdown_worker pid (log l m as s)))"
    by (intro sw lg)
  from h show ?thesis
  proof (cases rule: getattr_cases)
    case 1
    have "I (after (reap (log Debug ''[%s] SIGCHLD'' [AInt (os_getpid s)] s)))"
      using \<open>I s\<close> by (intro rp lg)
    then show ?thesis unfolding 1 SIGCHLD_def
      by (cases "reap (log Debug ''[%s] SIGCHLD'' [AInt (os_getpid s)] s)") (auto intro: sp)
  next
    case 2
    show ?thesis unfolding 2 SIGHUP_def Let_def respawn_workers_def
      using \<open>I s\<close> by (auto intro!: resp lg one)
  next
    case 3
    show ?thesis unfolding 3 SIGINT_def Let_def
      using \<open>I s\<close> by (auto intro!: shut lg one)
  next
    case 4
    show ?thesis unfolding 4 SIGQUIT_def Let_def
      using \<open>I s\<close> by (auto intro!: shut lg one)
  next
    case 5
    show ?thesis unfolding 5 SIGUSR1_def Let_def add_worker_def
      using \<open>I s\<close> by (auto intro!: sp lg nw)
  next
    case 6
    have "\<And>s. I s \<Longrightarrow> I (after (remove_worker s))"
      unfolding remove_worker_def Let_def by (auto intro!: remf lg nw)
    then show ?thesis unfolding 6 SIGUSR2_def Let_def
      using \<open>I s\<close> by (auto intro!: lg)
  next
    case 7
    show ?thesis unfolding 7 SIGTERM_def Let_def
      using \<open>I s\<close> by (auto intro!: shut lg one)
  qed
qed

lemma reap_invariant:
  assumes emit: "\<And>e s. (\<forall>fd str. e \<noteq> EWrite fd str) \<Longrightarrow> (\<forall>pid st. e \<noteq> EFork pid st) \<Longrightarrow> I s \<Longrightarrow> I (emit e s)"
    and del: "\<And>pid s. I s \<Longrightarrow> I (s\<lparr>workers := AList.delete pid (workers s)\<rparr>)"
    and os: "\<And>z c s. I s \<Longrightarrow> I (s\<lparr>world := (world s)\<lparr>zombies := z, children := c\<rparr>\<rparr>)"
    and "I s"
  shows "I (after (reap s))"
  using \<open>I s\<close>
proof (induction s rule: reap.induct)
  case (1 s)
  show ?case
  proof (cases "workers s = []")
    case True
    then show ?thesis using "1.prems" by (subst reap.simps) simp
  next
    case False
    show ?thesis
    proof (cases "os_waitpid s")
      case (Inl e)
      then have "snd e = s" by (auto simp: os_waitpid_def split: if_splits list.splits option.splits)
      with Inl False "1.prems" show ?thesis
        by (subst reap.simps) (cases e, simp)
    next
      case (Inr x)
      obtain pid st s1 where x: "x = ((pid, st), s1)" by (cases x) auto
      have I1: "I s1"
        using Inr x "1.prems"
        by (auto simp: os_waitpid_def split: if_splits list.splits option.splits intro!: emit os)
      show ?thesis
      proof (cases "pid = 0")
        case True
        with Inr x False I1 show ?thesis by (subst reap.simps) simp
      next
        case nz: False
        define s2 where "s2 = log Info ''[%s] worker %s ended with status: %s''
                                [AInt (os_getpid s1), AInt pid, AInt (int (st div 256))] s1"
        have I2: "I s2" unfolding s2_def log_def using I1 by (intro emit) simp_all
        show ?thesis
        proof (cases "map_of (workers s2) pid")
          case None
          with Inr x False nz I2 show ?thesis
            by (subst reap.simps) (simp add: s2_def[symmetric])
        next
          case (Some worker)
          define s3 where "s3 = os_close (snd (pipe worker))
                                   (os_close (fst (pipe worker))
                                      (s2\<lparr>workers := AList.delete pid (workers s2)\<rparr>))"
          have "I s3" unfolding s3_def os_close_def using I2 by (intro emit del) simp_all
          from "1.IH"[OF False Inr x[symmetric] refl nz s2_def Some this[unfolded s3_def]]
          have "I (after (reap s3))" by (simp add: s3_def)
          with Inr x False nz Some show ?thesis
            by (subst reap.simps) (simp add: s2_def[symmetric] s3_def[symmetric])
        qed
      qed
    qed
  qed
qed

subsection \<open>The exceptions of a round\<close>


















subsection \<open>The quit byte is written at most once to a channel\<close>

lemma quit_writes_append [simp]: "quit_writes (xs @ ys) = quit_writes xs @ quit_writes ys"
  by (simp add: quit_writes_def)

lemma quit_writes_Nil [simp]: "quit_writes [] = []"
  by (simp add: quit_writes_def)

lemma quit_writes_single:
  "quit_writes [e] = (case e of EWrite fd str \<Rightarrow> if str = WORKER_QUIT then [fd] else [] | _ \<Rightarrow> [])"
  by (cases e) (simp_all add: quit_writes_def)

lemma quit_once_mono:
  assumes "quit_once s" "workers t = workers s" "next_fd (world s) \<le> next_fd (world t)"
    "quit_writes (trace (world t)) = quit_writes (trace (world s))"
  shows "quit_once t"
  using assms unfolding quit_once_def by (auto simp: case_prod_beta)

lemma quit_once_emit:
  assumes "\<forall>fd str. e \<noteq> EWrite fd str" "quit_once s"
  shows "quit_once (emit e s)"
proof -
  have "quit_writes [e] = []" using assms(1) by (cases e) (simp_all add: quit_writes_def)
  with assms(2) show ?thesis by (intro quit_once_mono[OF assms(2)]) simp_all
qed

lemma quit_once_children_exit: "quit_once s \<Longrightarrow> quit_once (children_exit died s)"
  by (rule quit_once_mono[of s]) simp_all

lemma wfd_update_same:
  assumes "map_of ws pid = Some w" "pipe w' = pipe w"
  shows "map (\<lambda>(pid, w). snd (pipe w)) (AList.update pid w' ws) = map (\<lambda>(pid, w). snd (pipe w)) ws"
  using assms by (induction ws) (auto split: if_splits)

lemma set_update_subset: "set (AList.update k v ws) \<subseteq> insert (k, v) (set ws)"
  by (induction ws) auto

lemma in_set_update: "(k, v) \<in> set (AList.update k v ws)"
  by (induction ws) auto

lemma wfd_update_fresh:
  assumes "distinct (map (\<lambda>(pid, w). snd (pipe w)) ws)"
    "\<forall>(p, v) \<in> set ws. snd (pipe v) \<noteq> snd (pipe w')"
  shows "distinct (map (\<lambda>(pid, w). snd (pipe w)) (AList.update pid w' ws))"
  using assms
proof (induction ws)
  case Nil
  then show ?case by simp
next
  case (Cons a ws)
  obtain p v where a: "a = (p, v)" by (cases a)
  show ?case
  proof (cases "p = pid")
    case True
    with Cons.prems a show ?thesis by (auto simp: case_prod_beta image_iff)
  next
    case False
    have "snd (pipe v) \<notin> (\<lambda>(pid, w). snd (pipe w)) ` set (AList.update pid w' ws)"
    proof
      assume "snd (pipe v) \<in> (\<lambda>(pid, w). snd (pipe w)) ` set (AList.update pid w' ws)"
      then obtain q u where qu: "(q, u) \<in> set (AList.update pid w' ws)" "snd (pipe u) = snd (pipe v)"
        by (auto simp: case_prod_beta)
      with set_update_subset[of pid w' ws] have "(q, u) = (pid, w') \<or> (q, u) \<in> set ws" by auto
      then show False
      proof
        assume "(q, u) = (pid, w')"
        with qu(2) Cons.prems(2) a show False by auto
      next
        assume "(q, u) \<in> set ws"
        with qu(2) Cons.prems(1) a show False by (force simp: case_prod_beta image_iff)
      qed
    qed
    moreover have "distinct (map (\<lambda>(pid, w). snd (pipe w)) (AList.update pid w' ws))"
      using Cons by simp
    ultimately show ?thesis using a False by simp
  qed
qed

lemma quit_once_shutdown_worker:
  assumes "quit_once s"
  shows "quit_once (after (shutdown_worker pid s))"
proof (cases "map_of (workers s) pid")
  case None
  then show ?thesis using assms by (simp add: shutdown_worker_def)
next
  case (Some w)
  show ?thesis
  proof (cases "wstatus w = WRunning")
    case False
    with Some assms show ?thesis by (simp add: shutdown_worker_def)
  next
    case True
    define w' where "w' = w\<lparr>wstatus := WShutdown\<rparr>"
    define ws' where "ws' = AList.update pid w' (workers s)"
    define fd where "fd = snd (pipe w)"
    define qw where "qw = quit_writes (trace (world s))"
    have mem: "(pid, w) \<in> set (workers s)" using Some by (rule map_of_SomeD)
    from assms have d: "distinct (map (\<lambda>(pid, w). snd (pipe w)) (workers s))"
      and el: "\<forall>(p, v) \<in> set (workers s). snd (pipe v) < next_fd (world s)
                 \<and> (wstatus v = WRunning \<longrightarrow> snd (pipe v) \<notin> set qw)"
      and dq: "distinct qw" and lt: "\<forall>x \<in> set qw. x < next_fd (world s)"
      by (simp_all add: quit_once_def qw_def)
    have fd: "fd < next_fd (world s)" "fd \<notin> set qw"
      using el mem True by (auto simp: fd_def)
    have map_eq: "map (\<lambda>(pid, w). snd (pipe w)) ws' = map (\<lambda>(pid, w). snd (pipe w)) (workers s)"
      unfolding ws'_def by (rule wfd_update_same[OF Some]) (simp add: w'_def)
    have d': "distinct (map (\<lambda>(pid, w). snd (pipe w)) ws')" using d map_eq by simp
    have mem': "(pid, w') \<in> set ws'" unfolding ws'_def by (rule in_set_update)
    have el': "\<forall>(p, v) \<in> set ws'. snd (pipe v) < next_fd (world s)
                 \<and> (wstatus v = WRunning \<longrightarrow> snd (pipe v) \<notin> set (qw @ [fd]))"
    proof (intro ballI, clarify)
      fix p v
      assume pv: "(p, v) \<in> set ws'"
      with set_update_subset[of pid w' "workers s"] have
        c: "(p, v) = (pid, w') \<or> (p, v) \<in> set (workers s)" by (auto simp: ws'_def)
      have 1: "snd (pipe v) < next_fd (world s)"
        using c el fd(1) by (auto simp: w'_def fd_def)
      have 2: "wstatus v = WRunning \<longrightarrow> snd (pipe v) \<notin> set (qw @ [fd])"
      proof
        assume run: "wstatus v = WRunning"
        then have "(p, v) \<noteq> (pid, w')" by (auto simp: w'_def)
        with c have old: "(p, v) \<in> set (workers s)" by auto
        with el run have nq: "snd (pipe v) \<notin> set qw" by auto
        have "snd (pipe v) \<noteq> fd"
        proof
          assume eq: "snd (pipe v) = fd"
          have "inj_on (\<lambda>(pid, w). snd (pipe w)) (set ws')"
            using d' by (simp add: distinct_map)
          from inj_onD[OF this _ pv mem'] eq have "(p, v) = (pid, w')"
            by (simp add: w'_def fd_def)
          with \<open>(p, v) \<noteq> (pid, w')\<close> show False by simp
        qed
        with nq show "snd (pipe v) \<notin> set (qw @ [fd])" by simp
      qed
      from 1 2 show "snd (pipe v) < next_fd (world s)
                 \<and> (wstatus v = WRunning \<longrightarrow> snd (pipe v) \<notin> set (qw @ [fd]))" by simp
    qed
    have res: "after (shutdown_worker pid s) = os_write fd WORKER_QUIT (s\<lparr>workers := ws'\<rparr>)"
      using Some True by (simp add: shutdown_worker_def ws'_def w'_def fd_def)
    have tr: "quit_writes (trace (world (os_write fd WORKER_QUIT (s\<lparr>workers := ws'\<rparr>)))) = qw @ [fd]"
      by (simp add: os_write_def quit_writes_single qw_def)
    define t where "t = os_write fd WORKER_QUIT (s\<lparr>workers := ws'\<rparr>)"
    have t: "workers t = ws'" "next_fd (world t) = next_fd (world s)"
      "quit_writes (trace (world t)) = qw @ [fd]"
      using tr by (simp_all add: t_def os_write_def)
    have "distinct (qw @ [fd])" using dq fd(2) by simp
    moreover have "\<forall>x \<in> set (qw @ [fd]). x < next_fd (world s)" using lt fd(1) by simp
    ultimately have "quit_once t"
      unfolding quit_once_def t using d' el' by blast
    then show ?thesis by (simp add: res t_def)
  qed
qed

lemma spawn_worker_props:
  assumes "spawn_worker s = ((pid, wp), s1)"
  shows "wp = (next_fd (world s), next_fd (world s) + 1)"
    and "pid = int (Suc (last_pid (world s)))"
    and "workers s1 = workers s" and "num_workers s1 = num_workers s"
    and "status s1 = status s" and "signal_pipe s1 = signal_pipe s"
    and "next_fd (world s1) = next_fd (world s) + 2"
    and "last_pid (world s1) = Suc (last_pid (world s))"
    and "children (world s1) = children (world s) @ [pid]"
    and "zombies (world s1) = zombies (world s)"
    and "self_pid (world s1) = self_pid (world s)"
    and "sigtable (world s1) = sigtable (world s)"
    and "trace (world s1) = trace (world s) @
           [EPipe (next_fd (world s)) (next_fd (world s) + 1), ENonblock (next_fd (world s)),
            EFork pid (status s)]"
  using assms
  by (auto simp: spawn_worker_def os_pipe_def os_fork_def fcntl_nonblock_def Let_def emit_def)

lemma quit_once_spawn_n: "quit_once s \<Longrightarrow> quit_once (spawn_n k s)"
proof (induction k arbitrary: s)
  case 0
  then show ?case by simp
next
  case (Suc k)
  obtain pid wp s1 where sw: "spawn_worker s = ((pid, wp), s1)"
    by (metis prod.exhaust)
  note p = spawn_worker_props[OF sw]
  define r where "r = next_fd (world s)"
  define new where "new = \<lparr>pipe = wp, wstatus = WRunning\<rparr>"
  define ws' where "ws' = AList.update pid new (workers s)"
  define t where "t = log Info ''[%s] started worker %s'' [AInt (os_getpid s1), AInt pid]
                        (s1\<lparr>workers := ws'\<rparr>)"
  define qw where "qw = quit_writes (trace (world s))"
  from Suc.prems have d: "distinct (map (\<lambda>(pid, w). snd (pipe w)) (workers s))"
      and el: "\<forall>(p, v) \<in> set (workers s). snd (pipe v) < r
                 \<and> (wstatus v = WRunning \<longrightarrow> snd (pipe v) \<notin> set qw)"
      and dq: "distinct qw" and lt: "\<forall>x \<in> set qw. x < r"
    by (simp_all add: quit_once_def qw_def r_def)
  have new: "snd (pipe new) = r + 1" by (simp add: new_def p(1) r_def)
  have t: "workers t = ws'" "next_fd (world t) = r + 2" "quit_writes (trace (world t)) = qw"
    by (simp_all add: t_def log_def p quit_writes_def qw_def r_def)
  have "\<forall>(p, v) \<in> set (workers s). snd (pipe v) \<noteq> snd (pipe new)"
    using el new by auto
  from wfd_update_fresh[OF d this]
  have d': "distinct (map (\<lambda>(pid, w). snd (pipe w)) ws')" by (simp add: ws'_def)
  have el': "\<forall>(p, v) \<in> set ws'. snd (pipe v) < r + 2
                 \<and> (wstatus v = WRunning \<longrightarrow> snd (pipe v) \<notin> set qw)"
  proof (intro ballI, clarify)
    fix p v
    assume "(p, v) \<in> set ws'"
    with set_update_subset[of pid new "workers s"]
    have "(p, v) = (pid, new) \<or> (p, v) \<in> set (workers s)" by (auto simp: ws'_def)
    then show "snd (pipe v) < r + 2 \<and> (wstatus v = WRunning \<longrightarrow> snd (pipe v) \<notin> set qw)"
    proof
      assume "(p, v) = (pid, new)"
      then have "snd (pipe v) = r + 1" using new by simp
      moreover have "r + 1 \<notin> set qw" using lt by auto
      ultimately show ?thesis by simp
    next
      assume "(p, v) \<in> set (workers s)"
      with el show ?thesis by auto
    qed
  qed
  have "\<forall>x \<in> set qw. x < r + 2" using lt by auto
  then have "quit_once t"
    unfolding quit_once_def t using d' el' dq by blast
  from Suc.IH[OF this] show ?case
    by (simp add: sw t_def ws'_def new_def p(3))
qed

lemma quit_once_spawn_workers: "quit_once s \<Longrightarrow> quit_once (spawn_workers s)"
  by (simp add: spawn_workers_def quit_once_spawn_n)

lemma quit_once_delete:
  assumes "quit_once s"
  shows "quit_once (s\<lparr>workers := AList.delete pid (workers s)\<rparr>)"
proof -
  have sub: "set (AList.delete pid (workers s)) \<subseteq> set (workers s)"
    by (auto simp: AList.delete_eq)
  have "distinct (map (\<lambda>(pid, w). snd (pipe w)) (AList.delete pid (workers s)))"
    using assms by (simp add: quit_once_def AList.delete_eq distinct_map_filter)
  then show ?thesis
    using assms sub unfolding quit_once_def by (simp add: subset_iff) blast
qed

lemma quit_once_fields:
  "quit_once (s\<lparr>num_workers := n\<rparr>) = quit_once s"
  "quit_once (s\<lparr>status := st\<rparr>) = quit_once s"
  "quit_once (s\<lparr>num_workers := n, status := st\<rparr>) = quit_once s"
  "quit_once (s\<lparr>world := (world s)\<lparr>zombies := z, children := c\<rparr>\<rparr>) = quit_once s"
  by (simp_all add: quit_once_def)

lemma quit_once_reap: "quit_once s \<Longrightarrow> quit_once (after (reap s))"
  by (rule reap_invariant[where I = quit_once])
     (simp_all add: quit_once_emit quit_once_delete quit_once_fields)

lemma quit_once_handler:
  assumes "getattr name = Some h" "quit_once s"
  shows "quit_once (after (h p s))"
  by (rule handlers_invariant[where I = quit_once, OF _ _ _ _ _ _ assms])
     (simp_all add: quit_once_emit quit_once_shutdown_worker quit_once_spawn_workers
        quit_once_reap quit_once_fields)

lemma quit_once_loop_from: "quit_once s \<Longrightarrow> quit_once (final (loop_from f script s))"
  by (rule loop_from_invariant[where I = quit_once])
     (simp_all add: quit_once_emit quit_once_children_exit quit_once_handler)

lemma quit_once_loop: "quit_once s \<Longrightarrow> quit_once (final (loop script s))"
  by (cases "signal_pipe s") (simp_all add: loop_def quit_once_loop_from quit_once_emit)

lemma quit_writes_signals: "quit_writes (map ESignal names) = []"
  by (induction names) (simp_all add: quit_writes_def)

lemma final_run:
  "\<exists>s1. do_setup (s\<lparr>status := Starting\<rparr>) = Inr s1
     \<and> final (run script s) =
         (case loop script ((spawn_workers s1)\<lparr>status := Running\<rparr>) of
            Returned s2 \<Rightarrow> s2\<lparr>status := Ended\<rparr> | Crashed e s2 \<Rightarrow> s2 | Blocked s2 \<Rightarrow> s2)"
proof -
  from do_setup_ok[of "s\<lparr>status := Starting\<rparr>"] obtain s1 where
    "do_setup (s\<lparr>status := Starting\<rparr>) = Inr s1" by blast
  then show ?thesis by (auto simp: run_def split: loop_outcome.splits)
qed

lemma quit_once_run:
  assumes "quit_once s"
  shows "quit_once (final (run script s))"
proof -
  from do_setup_ok[of "s\<lparr>status := Starting\<rparr>"] obtain s1 where
    s1: "do_setup (s\<lparr>status := Starting\<rparr>) = Inr s1" "workers s1 = workers s"
      "next_fd (world s1) = next_fd (world s) + 2"
      "trace (world s1) = trace (world s) @ EPipe (next_fd (world s)) (next_fd (world s) + 1)
                             # map ESignal (map fst SIGNAL_IDS)"
    by auto
  have "quit_writes (trace (world s1)) = quit_writes (trace (world s))"
    unfolding s1(4) quit_writes_append
    by (simp add: quit_writes_def)
  with s1 assms have "quit_once s1" by (intro quit_once_mono[OF assms]) simp_all
  then have "quit_once ((spawn_workers s1)\<lparr>status := Running\<rparr>)"
    by (simp add: quit_once_fields quit_once_spawn_workers)
  from quit_once_loop[OF this, of script] s1(1) show ?thesis
    by (auto simp: run_def quit_once_fields split: loop_outcome.splits)
qed

lemma shutdown_worker_status: "status (after (shutdown_worker pid s)) = status s"
  by (simp add: shutdown_worker_def os_write_def split: option.splits)

lemma shutdown_each_status: "status (after (shutdown_each pids s)) = status s"
proof (induction pids arbitrary: s)
  case Nil
  then show ?case by simp
next
  case (Cons pid pids)
  show ?case
  proof (cases "shutdown_worker pid s")
    case (Inl e)
    then show ?thesis using shutdown_worker_status[of pid s] by (cases e) simp
  next
    case (Inr t)
    then show ?thesis using shutdown_worker_status[of pid s] Cons.IH[of t] by simp
  qed
qed

text \<open>
  C4. Shutting down is idempotent. \<open>_shutdown\<close> on a master whose status is already
  \<open>shutdown\<close> returns the object unchanged, so a second call after a first changes
  nothing and writes nothing. \<open>_shutdown_worker(pid)\<close> on a record that is already
  \<open>shutdown\<close> returns the object unchanged, and a second call after a first does too.
  Over a whole \<open>run()\<close>, whatever the signal channel delivers and however the run
  ends, no pipe receives the quit byte twice; every handler keeps the invariant that
  says so.
\<close>

theorem shutdown_idempotent:
  "(status s = Shutdown \<longrightarrow> shutdown s = Inr s)
   \<and> (\<forall>t. shutdown s = Inr t \<longrightarrow> shutdown t = Inr t)
   \<and> (\<forall>pid w. map_of (workers s) pid = Some w \<and> wstatus w = WShutdown
          \<longrightarrow> shutdown_worker pid s = Inr s)
   \<and> (\<forall>pid t. shutdown_worker pid s = Inr t \<longrightarrow> shutdown_worker pid t = Inr t)
   \<and> (quit_once s \<longrightarrow> quit_once (final (run script s))
          \<and> distinct (quit_writes (trace (world (final (run script s))))))
   \<and> (\<forall>name h p. getattr name = Some h \<and> quit_once s \<longrightarrow> quit_once (after (h p s)))"
proof (intro conjI allI impI)
  assume "status s = Shutdown"
  then show "shutdown s = Inr s" by (simp add: shutdown_def)
next
  fix t
  assume t: "shutdown s = Inr t"
  have "status t = Shutdown"
  proof (cases "status s = Shutdown")
    case True
    with t show ?thesis by (simp add: shutdown_def)
  next
    case False
    define s' where "s' = (log Info ''[%s] shutting down'' [AInt (os_getpid s)] s)
                            \<lparr>num_workers := 0, status := Shutdown\<rparr>"
    have "shutdown s = shutdown_each (map fst (workers s')) s'"
      using False by (simp add: shutdown_def shutdown_workers_def s'_def)
    with t have "t = after (shutdown_each (map fst (workers s')) s')" by simp
    then show ?thesis using shutdown_each_status[of "map fst (workers s')" s']
      by (simp add: s'_def)
  qed
  then show "shutdown t = Inr t" by (simp add: shutdown_def)
next
  fix pid w
  assume "map_of (workers s) pid = Some w \<and> wstatus w = WShutdown"
  then show "shutdown_worker pid s = Inr s" by (simp add: shutdown_worker_def)
next
  fix pid t
  assume t: "shutdown_worker pid s = Inr t"
  then obtain w where w: "map_of (workers s) pid = Some w"
    by (auto simp: shutdown_worker_def split: option.splits)
  show "shutdown_worker pid t = Inr t"
  proof (cases "wstatus w = WRunning")
    case False
    with t w show ?thesis by (auto simp: shutdown_worker_def)
  next
    case True
    with t w have "map_of (workers t) pid = Some (w\<lparr>wstatus := WShutdown\<rparr>)"
      by (auto simp: shutdown_worker_def os_write_def update_conv')
    then show ?thesis by (simp add: shutdown_worker_def)
  qed
next
  assume q: "quit_once s"
  then show "quit_once (final (run script s))" by (rule quit_once_run)
  then show "distinct (quit_writes (trace (world (final (run script s)))))"
    by (simp add: quit_once_def)
next
  fix name h p
  assume "getattr name = Some h \<and> quit_once s"
  then show "quit_once (after (h p s))" using quit_once_handler by blast
qed

text \<open>
  The master after its own terminate request; and a run in which the master is told to
  terminate twice, then to hang up, and a worker asks to be removed: pipes 6 and 8 get
  the quit byte once each.
\<close>

theorem shutdown_idempotent_witness:
  "status ex_shut = Shutdown \<and> shutdown ex_shut = Inr ex_shut
   \<and> map_of (workers ex_shut) 101 = Some \<lparr>pipe = (5, 6), wstatus = WShutdown\<rparr>
   \<and> shutdown_worker 101 ex_shut = Inr ex_shut
   \<and> quit_once (Forkd 2 w0)
   \<and> distinct (quit_writes (trace (world (final (run
         [([], Line ''T 100''), ([], Line ''T 100''), ([], Line ''H 100''), ([], Line ''T 101'')]
         (Forkd 2 w0))))))
   \<and> quit_writes (trace (world (final (run
         [([], Line ''T 100''), ([], Line ''T 100''), ([], Line ''H 100''), ([], Line ''T 101'')]
         (Forkd 2 w0))))) = [6, 8]
   \<and> getattr ''_SIGTERM'' = Some SIGTERM \<and> quit_once ex_shut
   \<and> quit_once (after (SIGTERM 100 ex_shut))"
proof -
  have a: "status ex_shut = Shutdown"
    "map_of (workers ex_shut) 101 = Some \<lparr>pipe = (5, 6), wstatus = WShutdown\<rparr>
       \<and> wstatus \<lparr>pipe = (5, 6), wstatus = WShutdown\<rparr> = WShutdown"
    by (simp_all add: ex_shut_eq)
  have q: "quit_once (Forkd 2 w0)"
    by (simp add: quit_once_def Forkd_def w0_def quit_writes_def)
  have q2: "quit_once ex_shut"
    by (simp add: quit_once_def ex_shut_eq quit_writes_def WORKER_QUIT_def)
  have g: "getattr ''_SIGTERM'' = Some SIGTERM" by (simp add: getattr_def)
  have ev: "quit_writes (trace (world (final (run
         [([], Line ''T 100''), ([], Line ''T 100''), ([], Line ''H 100''), ([], Line ''T 101'')]
         (Forkd 2 w0))))) = [6, 8]"
    by (simp add: eval_defs)
  note t1 = shutdown_idempotent[of ex_shut "[]"]
  note t2 = shutdown_idempotent[of "Forkd 2 w0"
         "[([], Line ''T 100''), ([], Line ''T 100''), ([], Line ''H 100''), ([], Line ''T 101'')]"]
  have 1: "shutdown ex_shut = Inr ex_shut" using t1 a(1) by blast
  have 2: "shutdown_worker 101 ex_shut = Inr ex_shut" using t1 a(2) by blast
  have 3: "distinct (quit_writes (trace (world (final (run
         [([], Line ''T 100''), ([], Line ''T 100''), ([], Line ''H 100''), ([], Line ''T 101'')]
         (Forkd 2 w0))))))" using t2 q by blast
  have 4: "quit_once (after (SIGTERM 100 ex_shut))" using t1 g q2 by blast
  show ?thesis using a 1 2 q 3 ev g q2 4 by simp
qed

subsection \<open>Reaping\<close>

lemma obs_append [simp]:
  "forks (xs @ ys) = forks xs @ forks ys"
  "waits (xs @ ys) = waits xs @ waits ys"
  "closes (xs @ ys) = closes xs @ closes ys"
  "readlines (xs @ ys) = readlines xs @ readlines ys"
  by (simp_all add: forks_def waits_def closes_def readlines_def)

lemma obs_Nil [simp]:
  "forks [] = []" "waits [] = []" "closes [] = []" "readlines [] = []"
  by (simp_all add: forks_def waits_def closes_def readlines_def)

lemma reap_registry_ok:
  assumes "registry_ok s" "wait_fault (world s) = None"
  shows "\<exists>t evs. reap s = Inr t \<and> registry_ok t \<and> zombies (world t) = []
     \<and> workers t = survivors s
     \<and> num_workers t = num_workers s \<and> status t = status s \<and> signal_pipe t = signal_pipe s
     \<and> last_pid (world t) = last_pid (world s) \<and> next_fd (world t) = next_fd (world s)
     \<and> self_pid (world t) = self_pid (world s)
     \<and> trace (world t) = trace (world s) @ evs
     \<and> forks evs = [] \<and> readlines evs = []
     \<and> waits evs = zombies (world s) @ (if survivors s = [] then [] else [(0, 0)])
     \<and> closes evs = reaped_closes s"
  using assms
proof (induction "zombies (world s)" arbitrary: s)
  case Nil
  note z = Nil.hyps[symmetric]
  have sv: "survivors s = workers s" by (simp add: survivors_def z)
  show ?case
  proof (cases "workers s = []")
    case True
    then show ?thesis using Nil.prems z
      by (subst reap.simps) (simp add: sv reaped_closes_def)
  next
    case False
    then have ch: "children (world s) \<noteq> []"
      using Nil.prems by (auto simp: registry_ok_def)
    have r: "reap s = Inr (emit (EWaitpid 0 0) s)"
      using False ch z Nil.prems(2) by (subst reap.simps) (simp add: os_waitpid_def)
    have ok: "registry_ok (emit (EWaitpid 0 0) s)"
      using Nil.prems(1) by (simp add: registry_ok_def)
    show ?thesis
      unfolding r using ok z False
      by (intro exI[of _ "emit (EWaitpid 0 0) s"] exI[of _ "[EWaitpid 0 0]"])
         (simp add: sv reaped_closes_def forks_def waits_def closes_def readlines_def)
  qed
next
  case (Cons a zs)
  obtain pid st where a: "a = (pid, st)" by (cases a)
  have z: "zombies (world s) = (pid, st) # zs" using Cons.hyps(2) a by simp
  from Cons.prems(1) have ok:
    "distinct (map fst (workers s))" "set (map fst (workers s)) = set (children (world s))"
    "distinct (map fst (zombies (world s)))" "fst ` set (zombies (world s)) \<subseteq> set (children (world s))"
    "\<forall>pid \<in> set (children (world s)). 0 < pid \<and> pid \<le> int (last_pid (world s))"
    by (simp_all add: registry_ok_def)
  have pid: "pid \<in> set (children (world s))" "pid \<noteq> 0" "pid \<notin> fst ` set zs"
    using ok(3,4,5) z by auto
  then have key: "pid \<in> fst ` set (workers s)" using ok(2) by auto
  then obtain w where w: "map_of (workers s) pid = Some w"
    by (metis domD dom_map_of_conv_image_fst)
  have ne: "workers s \<noteq> []" "children (world s) \<noteq> []" using key pid(1) by auto
  define s1 where "s1 = emit (EWaitpid pid st)
      (s\<lparr>world := (world s)\<lparr>zombies := zs, children := removeAll pid (children (world s))\<rparr>\<rparr>)"
  define s2 where "s2 = log Info ''[%s] worker %s ended with status: %s''
                                [AInt (os_getpid s1), AInt pid, AInt (int (st div 256))] s1"
  define s3 where "s3 = os_close (snd (pipe w)) (os_close (fst (pipe w))
                           (s2\<lparr>workers := AList.delete pid (workers s2)\<rparr>))"
  have wp: "os_waitpid s = Inr ((pid, st), s1)"
    using ne z Cons.prems(2) by (simp add: os_waitpid_def s1_def)
  have w2: "map_of (workers s2) pid = Some w" using w by (simp add: s2_def s1_def log_def)
  have step: "reap s = reap s3"
    using ne wp pid(2) w2
    by (subst reap.simps) (simp add: s2_def[symmetric] s3_def[symmetric])
  have f3: "workers s3 = AList.delete pid (workers s)" "zombies (world s3) = zs"
    "children (world s3) = removeAll pid (children (world s))"
    "num_workers s3 = num_workers s" "status s3 = status s" "signal_pipe s3 = signal_pipe s"
    "last_pid (world s3) = last_pid (world s)" "next_fd (world s3) = next_fd (world s)"
    "self_pid (world s3) = self_pid (world s)"
    "trace (world s3) = trace (world s) @ [EWaitpid pid st,
        ELog Info ''[%s] worker %s ended with status: %s''
          [AInt (self_pid (world s)), AInt pid, AInt (int (st div 256))],
        EClose (fst (pipe w)), EClose (snd (pipe w))]"
    by (simp_all add: s3_def s2_def s1_def os_close_def log_def os_getpid_def)
  have ok3: "registry_ok s3"
    unfolding registry_ok_def f3
    using ok z pid(3) by (auto simp: delete_keys distinct_removeAll)
  have wf3: "wait_fault (world s3) = None"
    using Cons.prems(2) by (simp add: s3_def s2_def s1_def os_close_def log_def)
  from Cons.hyps(1)[OF f3(2)[symmetric] ok3 wf3] obtain t evs where
    t: "reap s3 = Inr t" "registry_ok t" "zombies (world t) = []" "workers t = survivors s3"
      "num_workers t = num_workers s3" "status t = status s3" "signal_pipe t = signal_pipe s3"
      "last_pid (world t) = last_pid (world s3)" "next_fd (world t) = next_fd (world s3)"
      "self_pid (world t) = self_pid (world s3)"
      "trace (world t) = trace (world s3) @ evs" "forks evs = []" "readlines evs = []"
      "waits evs = zombies (world s3) @ (if survivors s3 = [] then [] else [(0, 0)])"
      "closes evs = reaped_closes s3"
    by blast
  have sv: "survivors s3 = survivors s"
    by (auto simp: survivors_def f3 z AList.delete_eq intro!: filter_cong)
  have "\<And>p q. (p, q) \<in> set zs \<Longrightarrow> map_of (AList.delete pid (workers s)) p = map_of (workers s) p"
    using pid(3) by (force simp: delete_conv')
  then have rc: "reaped_closes s = [fst (pipe w), snd (pipe w)] @ reaped_closes s3"
    unfolding reaped_closes_def z f3 using w
    by (auto intro!: arg_cong[where f = concat] map_cong)
  define evs' where "evs' = [EWaitpid pid st,
        ELog Info ''[%s] worker %s ended with status: %s''
          [AInt (self_pid (world s)), AInt pid, AInt (int (st div 256))],
        EClose (fst (pipe w)), EClose (snd (pipe w))] @ evs"
  have tr: "trace (world t) = trace (world s) @ evs'"
    by (simp add: t(11) f3 evs'_def)
  have obs: "forks evs' = []" "readlines evs' = []"
    "waits evs' = zombies (world s) @ (if survivors s = [] then [] else [(0, 0)])"
    "closes evs' = reaped_closes s"
    using t(12-15) by (simp_all add: evs'_def sv rc f3 z forks_def waits_def closes_def readlines_def)
  show ?case
    using t(1-10) tr obs by (intro exI[of _ t] exI[of _ evs']) (simp add: step sv f3)
qed

lemma update_fresh_append: "k \<notin> fst ` set ws \<Longrightarrow> AList.update k v ws = ws @ [(k, v)]"
  by (induction ws) auto

lemma spawn_n_registry_ok:
  assumes "registry_ok s"
  shows "\<exists>new evs. registry_ok (spawn_n k s) \<and> workers (spawn_n k s) = workers s @ new
     \<and> length new = k \<and> (\<forall>(p, w) \<in> set new. wstatus w = WRunning)
     \<and> trace (world (spawn_n k s)) = trace (world s) @ evs
     \<and> forks evs = map (\<lambda>(p, w). (p, status s)) new
     \<and> waits evs = [] \<and> closes evs = [] \<and> readlines evs = []
     \<and> zombies (world (spawn_n k s)) = zombies (world s)
     \<and> num_workers (spawn_n k s) = num_workers s \<and> status (spawn_n k s) = status s
     \<and> signal_pipe (spawn_n k s) = signal_pipe s
     \<and> self_pid (world (spawn_n k s)) = self_pid (world s)"
  using assms
proof (induction k arbitrary: s)
  case 0
  then show ?case by simp
next
  case (Suc k)
  obtain pid wp s1 where sw: "spawn_worker s = ((pid, wp), s1)"
    by (metis prod.exhaust)
  note p = spawn_worker_props[OF sw]
  from Suc.prems have ok:
    "distinct (map fst (workers s))" "set (map fst (workers s)) = set (children (world s))"
    "distinct (map fst (zombies (world s)))" "fst ` set (zombies (world s)) \<subseteq> set (children (world s))"
    "\<forall>pid \<in> set (children (world s)). 0 < pid \<and> pid \<le> int (last_pid (world s))"
    by (simp_all add: registry_ok_def)
  have fresh: "pid \<notin> fst ` set (workers s)"
  proof
    assume "pid \<in> fst ` set (workers s)"
    then have "pid \<in> set (children (world s))" using ok(2) by auto
    with ok(5) have "pid \<le> int (last_pid (world s))" by blast
    with p(2) show False by simp
  qed
  define new where "new = \<lparr>pipe = wp, wstatus = WRunning\<rparr>"
  define t where "t = log Info ''[%s] started worker %s'' [AInt (os_getpid s1), AInt pid]
                        (s1\<lparr>workers := AList.update pid new (workers s1)\<rparr>)"
  have step: "spawn_n (Suc k) s = spawn_n k t"
    by (simp add: sw t_def new_def)
  have ft: "workers t = workers s @ [(pid, new)]" "zombies (world t) = zombies (world s)"
    "children (world t) = children (world s) @ [pid]"
    "last_pid (world t) = Suc (last_pid (world s))"
    "num_workers t = num_workers s" "status t = status s" "signal_pipe t = signal_pipe s"
    "self_pid (world t) = self_pid (world s)"
    "trace (world t) = trace (world s) @
           [EPipe (next_fd (world s)) (next_fd (world s) + 1), ENonblock (next_fd (world s)),
            EFork pid (status s),
            ELog Info ''[%s] started worker %s'' [AInt (self_pid (world s)), AInt pid]]"
    using update_fresh_append[OF fresh, of new]
    by (simp_all add: t_def log_def p os_getpid_def)
  have okt: "registry_ok t"
    unfolding registry_ok_def ft
    using ok fresh p(2) by (auto simp: image_iff)
  from Suc.IH[OF okt] obtain new' evs where
    ih: "registry_ok (spawn_n k t)" "workers (spawn_n k t) = workers t @ new'"
      "length new' = k" "\<forall>(p, w) \<in> set new'. wstatus w = WRunning"
      "trace (world (spawn_n k t)) = trace (world t) @ evs"
      "forks evs = map (\<lambda>(p, w). (p, status t)) new'"
      "waits evs = []" "closes evs = []" "readlines evs = []"
      "zombies (world (spawn_n k t)) = zombies (world t)"
      "num_workers (spawn_n k t) = num_workers t" "status (spawn_n k t) = status t"
      "signal_pipe (spawn_n k t) = signal_pipe t"
      "self_pid (world (spawn_n k t)) = self_pid (world t)"
    by blast
  define evs' where "evs' = [EPipe (next_fd (world s)) (next_fd (world s) + 1),
            ENonblock (next_fd (world s)), EFork pid (status s),
            ELog Info ''[%s] started worker %s'' [AInt (self_pid (world s)), AInt pid]] @ evs"
  have obs: "forks evs' = map (\<lambda>(p, w). (p, status s)) ((pid, new) # new')"
    "waits evs' = []" "closes evs' = []" "readlines evs' = []"
    using ih(6-9) by (simp_all add: evs'_def ft forks_def waits_def closes_def readlines_def)
  show ?case
    unfolding step
    using ih(1-5,10-14) obs
    by (intro exI[of _ "(pid, new) # new'"] exI[of _ evs']) (simp add: ft evs'_def new_def)
qed

text \<open>
  What a reap cycle does when the registry mirrors the children and the system lets
  \<open>waitpid\<close> succeed. \<open>_SIGCHLD\<close> returns normally. It calls \<open>waitpid\<close> once per terminated child, in order, and once more with
  the answer "none" unless the registry has run empty; no zombie is left. For every
  reaped pid the record is removed and both ends of its pipe are closed; the other
  records are kept as they are. Then \<open>_spawn_workers\<close> forks as many workers as the
  target exceeds the survivors, each with status \<open>running\<close>, so that the registry has
  \<open>max(target, survivors)\<close> records; with a target of 0, as \<open>_shutdown\<close> sets it,
  nothing is forked.
\<close>

theorem reap_and_respawn:
  assumes "registry_ok s" "wait_fault (world s) = None"
  shows "\<exists>t evs new. SIGCHLD from_pid s = Inr t \<and> registry_ok t
     \<and> trace (world t) = trace (world s) @ evs
     \<and> waits evs = zombies (world s) @ (if survivors s = [] then [] else [(0, 0)])
     \<and> zombies (world t) = []
     \<and> closes evs = reaped_closes s
     \<and> workers t = survivors s @ new
     \<and> length new = nat (num_workers s - int (length (survivors s)))
     \<and> (\<forall>(p, w) \<in> set new. wstatus w = WRunning)
     \<and> forks evs = map (\<lambda>(p, w). (p, status s)) new
     \<and> int (length (workers t)) = max (num_workers s) (int (length (survivors s)))
     \<and> num_workers t = num_workers s \<and> status t = status s"
proof -
  define s0 where "s0 = log Debug ''[%s] SIGCHLD'' [AInt (os_getpid s)] s"
  have ok0: "registry_ok s0" using assms(1) by (simp add: registry_ok_def s0_def log_def)
  have wf0: "wait_fault (world s0) = None" using assms(2) by (simp add: s0_def log_def)
  have f0: "survivors s0 = survivors s" "reaped_closes s0 = reaped_closes s"
    "zombies (world s0) = zombies (world s)" "num_workers s0 = num_workers s"
    "status s0 = status s"
    "trace (world s0) = trace (world s) @ [ELog Debug ''[%s] SIGCHLD'' [AInt (os_getpid s)]]"
    by (simp_all add: s0_def log_def survivors_def reaped_closes_def)
  from reap_registry_ok[OF ok0 wf0] obtain t1 evs1 where
    t1: "reap s0 = Inr t1" "registry_ok t1" "zombies (world t1) = []" "workers t1 = survivors s0"
      "num_workers t1 = num_workers s0" "status t1 = status s0"
      "trace (world t1) = trace (world s0) @ evs1" "forks evs1 = []"
      "waits evs1 = zombies (world s0) @ (if survivors s0 = [] then [] else [(0, 0)])"
      "closes evs1 = reaped_closes s0"
    by blast
  define k where "k = nat (max (num_workers t1 - int (length (workers t1))) 0)"
  from spawn_n_registry_ok[OF t1(2), of k] obtain new evs2 where
    t2: "registry_ok (spawn_n k t1)" "workers (spawn_n k t1) = workers t1 @ new"
      "length new = k" "\<forall>(p, w) \<in> set new. wstatus w = WRunning"
      "trace (world (spawn_n k t1)) = trace (world t1) @ evs2"
      "forks evs2 = map (\<lambda>(p, w). (p, status t1)) new"
      "waits evs2 = []" "closes evs2 = []"
      "zombies (world (spawn_n k t1)) = zombies (world t1)"
      "num_workers (spawn_n k t1) = num_workers t1" "status (spawn_n k t1) = status t1"
    by blast
  define t where "t = spawn_n k t1"
  note t2 = t2[folded t_def]
  have res: "SIGCHLD from_pid s = Inr t"
    by (simp add: SIGCHLD_def s0_def[symmetric] t1(1) spawn_workers_def k_def t_def)
  define evs where "evs = ELog Debug ''[%s] SIGCHLD'' [AInt (os_getpid s)] # evs1 @ evs2"
  have tr: "trace (world t) = trace (world s) @ evs"
    by (simp add: t2(5) t1(7) f0(6) evs_def)
  have obs: "waits evs = zombies (world s) @ (if survivors s = [] then [] else [(0, 0)])"
    "closes evs = reaped_closes s" "forks evs = map (\<lambda>(p, w). (p, status s)) new"
    using t1(8-10) t2(6-8)
    by (simp_all add: evs_def f0 t1(6) forks_def waits_def closes_def)
  have ln: "length new = nat (num_workers s - int (length (survivors s)))"
    by (simp add: t2(3) k_def t1 f0)
  have ws: "workers t = survivors s @ new" by (simp add: t2(2) t1(4) f0)
  have len: "int (length (workers t)) = max (num_workers s) (int (length (survivors s)))"
    unfolding ws by (simp add: ln)
  have rest: "zombies (world t) = []" "num_workers t = num_workers s" "status t = status s"
    by (simp_all add: t2 t1 f0)
  show ?thesis
    unfolding res
    using t2(1,4) tr obs ln ws len rest
    by (intro exI[of _ t] exI[of _ evs] exI[of _ new]) simp
qed

lemma ex_crash_eq:
  "ex_crash = ex_two\<lparr>world := (world ex_two)\<lparr>zombies := [(101, 9)]\<rparr>\<rparr>"
  by (simp add: ex_crash_def ex_two_eq)

text \<open>
  Worker 101 of two was killed: one reap cycle closes its pipe (5, 6), keeps worker 102
  and forks one replacement, and the registry is back at the target of 2.
\<close>

theorem reap_and_respawn_witness:
  "registry_ok ex_crash \<and> wait_fault (world ex_crash) = None
   \<and> (\<exists>t evs new. SIGCHLD 100 ex_crash = Inr t
         \<and> trace (world t) = trace (world ex_crash) @ evs
         \<and> waits evs = [(101, 9), (0, 0)] \<and> closes evs = [5, 6]
         \<and> workers t = (102, \<lparr>pipe = (7, 8), wstatus = WRunning\<rparr>) # new \<and> length new = 1
         \<and> int (length (workers t)) = num_workers ex_crash)"
proof -
  have ok: "registry_ok ex_crash"
    by (simp add: registry_ok_def ex_crash_eq ex_two_eq)
  have sv: "survivors ex_crash = [(102, \<lparr>pipe = (7, 8), wstatus = WRunning\<rparr>)]"
    by (simp add: survivors_def ex_crash_eq ex_two_eq)
  have rc: "reaped_closes ex_crash = [5, 6]"
    by (simp add: reaped_closes_def ex_crash_eq ex_two_eq)
  have z: "zombies (world ex_crash) = [(101, 9)]" "num_workers ex_crash = 2"
    by (simp_all add: ex_crash_eq ex_two_eq)
  have wf: "wait_fault (world ex_crash) = None"
    by (simp add: ex_crash_eq ex_two_eq)
  from reap_and_respawn[OF ok wf, of 100] show ?thesis
    using ok wf by (simp add: sv rc z) blast
qed

lemma ex_shut_add_eq:
  "ex_shut_add = \<lparr>num_workers = 1, status = Shutdown, signal_pipe = Some (3, 4),
     workers = [(101, \<lparr>pipe = (5, 6), wstatus = WShutdown\<rparr>)],
     world = \<lparr>self_pid = 100, last_pid = 101, next_fd = 7, children = [101], zombies = [],
       sigtable = SIGNAL_IDS,
       trace = [EPipe 3 4, ESignal ''SIGCHLD'', ESignal ''SIGHUP'', ESignal ''SIGINT'',
         ESignal ''SIGQUIT'', ESignal ''SIGUSR1'', ESignal ''SIGUSR2'', ESignal ''SIGTERM'',
         EPipe 5 6, ENonblock 5, EFork 101 Starting,
         ELog Info ''[%s] started worker %s'' [AInt 100, AInt 101],
         EFdopen 3, EReadline 3, ELog Debug ''[%s] SIGTERM from %d'' [AInt 100, AInt 100],
         ELog Info ''[%s] shutting down'' [AInt 100], EWrite 6 ''Q'',
         EReadline 3, ELog Debug ''[%s] SIGUSR1 from %d'' [AInt 100, AInt 100],
         ELog Info ''[%s] adding worker, num_workers=%d'' [AInt 100, AInt 1]],
       wait_fault = None\<rparr>\<rparr>"
  by (simp add: ex_shut_add_def eval_defs)

lemma reap_one:
  "reap (log Debug ''[%s] SIGCHLD'' [AInt 100] (children_exit [(101, 0)] ex_shut_add))
     = Inr (ex_shut_add\<lparr>workers := [],
          world := (world ex_shut_add)\<lparr>children := [],
            trace := trace (world ex_shut_add) @
              [ELog Debug ''[%s] SIGCHLD'' [AInt 100], EWaitpid 101 0,
               ELog Info ''[%s] worker %s ended with status: %s'' [AInt 100, AInt 101, AInt 0],
               EClose 5, EClose 6]\<rparr>\<rparr>)"
  apply (subst reap.simps)
  apply (simp add: ex_shut_add_eq os_waitpid_def log_def emit_def os_getpid_def os_close_def)
  apply (subst reap.simps)
  apply simp
  done

text \<open>
  C7 at a failing input. The master is shutting down (status \<open>shutdown\<close>), an
  add-worker request has raised its target from 0 to 1, and its last worker 101 has
  terminated. The reap cycle removes 101 and then forks worker 102, with status
  \<open>shutdown\<close>: a worker is spawned although the supervisor is shutting down, and the
  registry is not empty, so the loop goes on.
\<close>

theorem respawn_during_shutdown:
  "status ex_shut_add = Shutdown \<and> num_workers ex_shut_add = 1
   \<and> map fst (workers ex_shut_add) = [101]
   \<and> status (after (SIGCHLD 100 (children_exit [(101, 0)] ex_shut_add))) = Shutdown
   \<and> map fst (workers (after (SIGCHLD 100 (children_exit [(101, 0)] ex_shut_add)))) = [102]
   \<and> forks (trace (world (after (SIGCHLD 100 (children_exit [(101, 0)] ex_shut_add)))))
       = [(101, Starting), (102, Shutdown)]"
proof -
  have g: "os_getpid (children_exit [(101, 0)] ex_shut_add) = 100"
    by (simp add: ex_shut_add_eq os_getpid_def)
  have a: "status ex_shut_add = Shutdown" "num_workers ex_shut_add = 1"
    "map fst (workers ex_shut_add) = [101]"
    by (simp_all add: ex_shut_add_eq)
  have r: "SIGCHLD 100 (children_exit [(101, 0)] ex_shut_add)
     = Inr (ex_shut_add\<lparr>workers := [(102, \<lparr>pipe = (7, 8), wstatus = WRunning\<rparr>)],
          world := (world ex_shut_add)\<lparr>children := [102], last_pid := 102, next_fd := 9,
            trace := trace (world ex_shut_add) @
              [ELog Debug ''[%s] SIGCHLD'' [AInt 100], EWaitpid 101 0,
               ELog Info ''[%s] worker %s ended with status: %s'' [AInt 100, AInt 101, AInt 0],
               EClose 5, EClose 6, EPipe 7 8, ENonblock 7, EFork 102 Shutdown,
               ELog Info ''[%s] started worker %s'' [AInt 100, AInt 102]]\<rparr>\<rparr>)"
    unfolding SIGCHLD_def g reap_one
    by (simp add: ex_shut_add_eq spawn_workers_def spawn_worker_def os_pipe_def os_fork_def
          fcntl_nonblock_def log_def emit_def os_getpid_def Let_def One_nat_def)
  show ?thesis
    unfolding r using a by (simp add: ex_shut_add_eq forks_def)
qed

subsection \<open>The order of run\<close>



lemma after_start_same_trace:
  assumes "after_start base s" "trace (world t) = trace (world s)"
    "status t = Running \<or> status t = Shutdown"
  shows "after_start base t"
  using assms by (auto simp: after_start_def)













end
